theory Spec2Isabelle
  imports Main
begin

section \<open>Strings of the source language\<close>

text \<open>
  A source string is a sequence of code units; the model uses \<open>string\<close> (a list of
  \<open>char\<close>), so it covers the strings whose code units are below 256, and \<open>length\<close>
  is the source's \<open>.length\<close> on them. Numbers that the source only uses as counts and
  indices are \<open>nat\<close>: they are bounded by the sizes of arrays and strings, far below
  \<open>2 ^ 53\<close>, where the source's arithmetic on them is exact. Numbers a caller supplies
  (page numbers, page counts, budgets) are \<open>int\<close>, standing for the integer-valued numbers
  of the source; comparison, \<open>Math.min\<close> and \<open>Math.max\<close> are exact on them, and
  addition and subtraction round as written out below.
\<close>

definition nl :: char where
  "nl = CHR 0x0A"

text \<open>\<open>hay.includes(needle)\<close>: the needle occurs as a contiguous run of the haystack.\<close>

fun includesStr :: "string \<Rightarrow> string \<Rightarrow> bool" where
  "includesStr [] needle = (needle = [])"
| "includesStr (c # cs) needle = (take (length needle) (c # cs) = needle \<or> includesStr cs needle)"

text \<open>\<open>s.startsWith(p)\<close>.\<close>

definition startsWith :: "string \<Rightarrow> string \<Rightarrow> bool" where
  "startsWith s p = (take (length p) s = p)"

text \<open>
  White space as \<open>trim\<close> and \<open>trimEnd\<close> see it, among the code units below 256:
  tab, line feed, vertical tab, form feed, carriage return, space, no-break space.
\<close>

definition isWhiteSpace :: "char \<Rightarrow> bool" where
  "isWhiteSpace c = (c = CHR 0x09 \<or> c = CHR 0x0A \<or> c = CHR 0x0B \<or> c = CHR 0x0C
     \<or> c = CHR 0x0D \<or> c = CHR 0x20 \<or> c = CHR 0xA0)"

definition trimEnd :: "string \<Rightarrow> string" where
  "trimEnd s = rev (dropWhile isWhiteSpace (rev s))"

definition trim :: "string \<Rightarrow> string" where
  "trim s = dropWhile isWhiteSpace (trimEnd s)"

text \<open>\<open>parts.join(sep)\<close>.\<close>

fun join :: "string \<Rightarrow> string list \<Rightarrow> string" where
  "join sep [] = []"
| "join sep [x] = x"
| "join sep (x # y # ys) = x @ sep @ join sep (y # ys)"

text \<open>\<open>s.split('\n')\<close>: always at least one piece.\<close>

fun splitLines :: "string \<Rightarrow> string list" where
  "splitLines [] = [[]]"
| "splitLines (c # cs) =
     (if c = nl then [] # splitLines cs
      else (case splitLines cs of [] \<Rightarrow> [[c]] | l # ls \<Rightarrow> (c # l) # ls))"

text \<open>\<open>s.replace(/\n$/, '')\<close>: one line feed at the very end is removed.\<close>

definition stripFinalNewline :: "string \<Rightarrow> string" where
  "stripFinalNewline s = (if s \<noteq> [] \<and> last s = nl then butlast s else s)"

text \<open>
  \<open>s.replace(/\n{3,}/g, '\n\n')\<close>: every maximal run of three or more line feeds
  becomes two; shorter runs stay. The first argument counts the line feeds of the run
  being read.
\<close>

fun collapseNewlines :: "nat \<Rightarrow> string \<Rightarrow> string" where
  "collapseNewlines n [] = replicate (min n 2) nl"
| "collapseNewlines n (c # cs) =
     (if c = nl then collapseNewlines (Suc n) cs
      else replicate (min n 2) nl @ c # collapseNewlines 0 cs)"

text \<open>Decimal rendering of a count, as a template literal renders a non-negative integer.\<close>

definition digitChar :: "nat \<Rightarrow> char" where
  "digitChar d = char_of (48 + d)"

function showNat :: "nat \<Rightarrow> string" where
  "showNat n = (if n < 10 then [digitChar n] else showNat (n div 10) @ [digitChar (n mod 10)])"
  by pat_completeness auto
termination
  by (relation "measure (\<lambda>n. n)") auto

declare showNat.simps [simp del]

section \<open>Data model (types/google.ts)\<close>

text \<open>
  Only the fields that the modelled functions read are kept. An optional field is an
  \<open>option\<close>; the optional booleans \<open>bold\<close> and \<open>italic\<close> are only ever tested for
  truthiness, so absent and false are both \<open>False\<close>.
\<close>

record Link =
  url :: "string option"

record TextStyle =
  bold :: bool
  italic :: bool
  link :: "Link option"

record TextRun =
  content :: string
  textStyle :: "TextStyle option"

record PageBreak =
  pbTextStyle :: "TextStyle option"

record ParagraphElement =
  textRun :: "TextRun option"
  pageBreak :: "PageBreak option"

record ParagraphStyle =
  namedStyleType :: "string option"

record Bullet =
  listId :: string
  nestingLevel :: "nat option"

record Paragraph =
  elements :: "ParagraphElement list"
  paragraphStyle :: "ParagraphStyle option"
  bullet :: "Bullet option"

record StructuralElement =
  elParagraph :: "Paragraph option"

record NestingLevel =
  glyphFormat :: "string option"

record DocList =
  nestingLevels :: "NestingLevel list"

record GoogleDocsDocument =
  title :: string
  bodyContent :: "StructuralElement list"
  lists :: "string \<rightharpoonup> DocList"

record ThreadComment =
  authorName :: string
  authorEmail :: string
  commentContent :: string
  isReply :: bool

record CommentThread =
  threadId :: string
  anchorId :: string
  quotedText :: string
  resolved :: bool
  comments :: "ThreadComment list"

section \<open>Pagination (utils/pagination.ts)\<close>

record PageBoundary =
  pageNumber :: nat
  startElementIndex :: nat
  endElementIndex :: nat
  charCount :: nat

definition DEFAULT_CHARS_PER_PAGE :: int where
  "DEFAULT_CHARS_PER_PAGE = 3000"

definition hasPageBreak :: "StructuralElement \<Rightarrow> bool" where
  "hasPageBreak element =
     (case elParagraph element of
        None \<Rightarrow> False
      | Some p \<Rightarrow> list_ex (\<lambda>el. pageBreak el \<noteq> None) (elements p))"

definition getElementCharCount :: "StructuralElement \<Rightarrow> nat" where
  "getElementCharCount element =
     (case elParagraph element of
        None \<Rightarrow> 0
      | Some p \<Rightarrow>
          foldl (\<lambda>sum el. case textRun el of Some r \<Rightarrow> sum + length (content r) | None \<Rightarrow> sum)
            0 (elements p))"

text \<open>
  The \<open>for\<close> loop of \<open>estimatePages\<close>. The second argument is the part of the input
  still to be read and \<open>i\<close> the index of its first block; the remaining arguments are the
  loop's variables \<open>pages\<close>, \<open>currentPageStart\<close>, \<open>currentCharCount\<close> and
  \<open>pageNumber\<close>, which the result returns as they are when the loop ends.
\<close>

fun estimateLoop ::
  "int \<Rightarrow> StructuralElement list \<Rightarrow> nat \<Rightarrow> PageBoundary list \<Rightarrow> nat \<Rightarrow> nat \<Rightarrow> nat
     \<Rightarrow> PageBoundary list \<times> nat \<times> nat \<times> nat" where
  "estimateLoop charsPerPage [] i pages currentPageStart currentCharCount pn =
     (pages, currentPageStart, currentCharCount, pn)"
| "estimateLoop charsPerPage (element # rest) i pages currentPageStart currentCharCount pn =
     (if hasPageBreak element then
        (if currentPageStart < i \<or> currentCharCount > 0 then
           estimateLoop charsPerPage rest (i + 1)
             (pages @ [\<lparr>pageNumber = pn, startElementIndex = currentPageStart,
                        endElementIndex = i, charCount = currentCharCount\<rparr>])
             (i + 1) 0 (pn + 1)
         else estimateLoop charsPerPage rest (i + 1) pages (i + 1) 0 pn)
      else
        (let cc = getElementCharCount element;
             total = currentCharCount + cc
         in if int total > charsPerPage \<and> i > currentPageStart then
              estimateLoop charsPerPage rest (i + 1)
                (pages @ [\<lparr>pageNumber = pn, startElementIndex = currentPageStart,
                           endElementIndex = i, charCount = total - cc\<rparr>])
                i cc (pn + 1)
            else estimateLoop charsPerPage rest (i + 1) pages currentPageStart total pn))"

definition estimatePages :: "StructuralElement list \<Rightarrow> int \<Rightarrow> PageBoundary list" where
  "estimatePages els charsPerPage =
     (if length els = 0 then
        [\<lparr>pageNumber = 1, startElementIndex = 0, endElementIndex = 0, charCount = 0\<rparr>]
      else
        (case estimateLoop charsPerPage els 0 [] 0 0 1 of
           (pages, currentPageStart, currentCharCount, pn) \<Rightarrow>
             if int currentPageStart \<le> int (length els) - 1 \<or> length pages = 0 then
               pages @ [\<lparr>pageNumber = pn, startElementIndex = currentPageStart,
                          endElementIndex = length els, charCount = currentCharCount\<rparr>]
             else pages))"

record FilterResult =
  frElements :: "StructuralElement list"
  totalPages :: int
  startPage :: int
  endPage :: int

text \<open>
  Addition and subtraction of the source's numbers. The exact result is rounded to the
  nearest number with a 53-bit significand, ties to the even significand; integers of
  magnitude up to \<open>2 ^ 53\<close> are kept as they are. (The model is for results of magnitude
  below \<open>2 ^ 1024\<close>, beyond which the source has \<open>Infinity\<close>.)
\<close>

function bitLength :: "int \<Rightarrow> nat" where
  "bitLength n = (if n \<le> 0 then 0 else Suc (bitLength (n div 2)))"
  by pat_completeness auto
termination
  by (relation "measure (\<lambda>n. nat n)") auto

declare bitLength.simps [simp del]

definition jsRound :: "int \<Rightarrow> int" where
  "jsRound x =
     (let m = \<bar>x\<bar>
      in if m \<le> 2 ^ 53 then x
         else
          (let e = bitLength m - 53;
               q = m div 2 ^ e;
               r = m mod 2 ^ e;
               half = 2 ^ (e - 1);
               q1 = (if r > half \<or> (r = half \<and> odd q) then q + 1 else q)
           in sgn x * (q1 * 2 ^ e)))"

definition jsAdd :: "int \<Rightarrow> int \<Rightarrow> int" where
  "jsAdd a b = jsRound (a + b)"

definition jsSub :: "int \<Rightarrow> int \<Rightarrow> int" where
  "jsSub a b = jsRound (a - b)"

text \<open>The blocks of one page: \<open>elements[i]\<close> for \<open>i\<close> from the start index up to the end index.\<close>

definition pageElements :: "StructuralElement list \<Rightarrow> PageBoundary \<Rightarrow> StructuralElement list" where
  "pageElements els page = map (\<lambda>i. els ! i) [startElementIndex page ..< endElementIndex page]"

definition filterByPageRange ::
  "StructuralElement list \<Rightarrow> int \<Rightarrow> int option \<Rightarrow> int \<Rightarrow> FilterResult" where
  "filterByPageRange els sp pageCount charsPerPage =
     (let pages = estimatePages els charsPerPage;
          total = int (length pages);
          clampedStart = min (max 1 sp) total;
          ep = (case pageCount of
                  None \<Rightarrow> total
                | Some pc \<Rightarrow> min (jsSub (jsAdd clampedStart pc) 1) total);
          selectedPages =
            filter (\<lambda>p. int (pageNumber p) \<ge> clampedStart \<and> int (pageNumber p) \<le> ep) pages
      in \<lparr>frElements = concat (map (pageElements els) selectedPages),
          totalPages = total, startPage = clampedStart, endPage = ep\<rparr>)"

definition extractAllText :: "StructuralElement list \<Rightarrow> string" where
  "extractAllText els =
     concat (map (\<lambda>el. case elParagraph el of
                          None \<Rightarrow> []
                        | Some p \<Rightarrow>
                            concat (map (\<lambda>pe. case textRun pe of None \<Rightarrow> [] | Some r \<Rightarrow> content r)
                                      (elements p)))
                 els)"

definition filterAndRenumberThreads ::
  "CommentThread list \<Rightarrow> StructuralElement list \<Rightarrow> CommentThread list" where
  "filterAndRenumberThreads threads els =
     (let fullText = extractAllText els;
          matching = filter (\<lambda>thread. quotedText thread \<noteq> [] \<and> includesStr fullText (quotedText thread))
                       threads
      in map2 (\<lambda>thread index. thread\<lparr>anchorId := ''c'' @ showNat (index + 1)\<rparr>)
           matching [0 ..< length matching])"

section \<open>Transformer (services/transformer.ts)\<close>

text \<open>
  Truthiness of an optional string (\<open>undefined\<close> and \<open>''\<close> are falsy) and the
  idiom \<open>x || ''\<close>.
\<close>

definition truthyStr :: "string option \<Rightarrow> bool" where
  "truthyStr s = (case s of None \<Rightarrow> False | Some v \<Rightarrow> v \<noteq> [])"

definition orEmpty :: "string option \<Rightarrow> string" where
  "orEmpty s = (case s of None \<Rightarrow> [] | Some v \<Rightarrow> v)"

text \<open>The seven own entries of \<open>HEADING_MAP\<close>.\<close>

definition HEADING_MAP :: "string \<rightharpoonup> string" where
  "HEADING_MAP =
     [''TITLE'' \<mapsto> ''# '', ''SUBTITLE'' \<mapsto> [], ''HEADING_1'' \<mapsto> ''## '',
      ''HEADING_2'' \<mapsto> ''### '', ''HEADING_3'' \<mapsto> ''#### '',
      ''HEADING_4'' \<mapsto> ''##### '', ''HEADING_5'' \<mapsto> ''###### '']"

text \<open>
  \<open>HEADING_MAP[styleType]\<close> inside a template literal. \<open>HEADING_MAP\<close> is a plain
  object, so a key that is not its own is looked up in the object prototype: the names
  below answer with a built-in function, and \<open>__proto__\<close> with the prototype itself,
  all truthy. The template literal renders the prototype as \<open>[object Object]\<close> and a
  built-in function by its source text, written here as V8 prints it (the white space of
  that text is the engine's choice); \<open>constructor\<close> is the function \<open>Object\<close>.
\<close>

definition inheritedFunctionNames :: "string list" where
  "inheritedFunctionNames =
     [''constructor'', ''hasOwnProperty'', ''isPrototypeOf'', ''propertyIsEnumerable'',
      ''toLocaleString'', ''toString'', ''valueOf'', ''__defineGetter__'',
      ''__defineSetter__'', ''__lookupGetter__'', ''__lookupSetter__'']"

definition nativeFunctionText :: "string \<Rightarrow> string" where
  "nativeFunctionText name = ''function '' @ name @ ''() { [native code] }''"

definition headingLookup :: "string \<Rightarrow> string option" where
  "headingLookup key =
     (case HEADING_MAP key of
        Some v \<Rightarrow> Some v
      | None \<Rightarrow>
          if key = ''__proto__'' then Some ''[object Object]''
          else if key = ''constructor'' then Some (nativeFunctionText ''Object'')
          else if List.member inheritedFunctionNames key then Some (nativeFunctionText key)
          else None)"

text \<open>\<open>style.link?.url\<close>.\<close>

definition linkUrl :: "TextStyle \<Rightarrow> string option" where
  "linkUrl style = (case link style of None \<Rightarrow> None | Some l \<Rightarrow> url l)"

definition applyTextStyle :: "string \<Rightarrow> TextStyle \<Rightarrow> string" where
  "applyTextStyle text style =
     (if truthyStr (linkUrl style) then ''['' @ text @ '']('' @ orEmpty (linkUrl style) @ '')''
      else
        (let text1 = (if italic style then ''_'' @ text @ ''_'' else text)
         in if bold style then ''**'' @ text1 @ ''**'' else text1))"

definition extractTextContent :: "ParagraphElement list \<Rightarrow> string" where
  "extractTextContent els =
     concat (map (\<lambda>element.
                    case textRun element of
                      None \<Rightarrow> []
                    | Some r \<Rightarrow>
                        (case textStyle r of
                           None \<Rightarrow> content r
                         | Some style \<Rightarrow> applyTextStyle (content r) style))
                 els)"

text \<open>
  \<open>getListPrefix\<close>. The nesting level is a count, so the \<open>RangeError\<close> of
  \<open>repeat\<close> on a negative number is outside the model's input type. An absent
  \<open>lists\<close> table is the empty map.
\<close>

definition getListPrefix :: "Paragraph \<Rightarrow> GoogleDocsDocument \<Rightarrow> string" where
  "getListPrefix para doc =
     (case bullet para of
        None \<Rightarrow> []
      | Some b \<Rightarrow>
          (let level = (case nestingLevel b of None \<Rightarrow> 0 | Some n \<Rightarrow> n);
               padding = concat (replicate level ''  '');
               levels = (case lists doc (listId b) of None \<Rightarrow> [] | Some ld \<Rightarrow> nestingLevels ld);
               gf = (if level < length levels then orEmpty (glyphFormat (levels ! level)) else []);
               isOrdered = (CHR ''%'' \<in> set gf \<and> (CHR ''.'' \<in> set gf \<or> startsWith gf ''[''))
           in if isOrdered then padding @ ''1. '' else padding @ ''- ''))"

definition formatCommentThread :: "CommentThread \<Rightarrow> string" where
  "formatCommentThread thread =
     (let anchorLabel = (if resolved thread then anchorId thread @ '' resolved'' else anchorId thread)
      in join ([nl] @ ''>'' @ [nl])
           (map (\<lambda>comment.
                   (let header = ''> ['' @ anchorLabel @ ''] **'' @ authorName comment
                                  @ ''** ('' @ authorEmail comment @ ''):'';
                        quoted = join [nl] (map (\<lambda>line. ''> '' @ line)
                                                (splitLines (commentContent comment)))
                    in header @ [nl] @ quoted))
                (comments thread)))"

text \<open>
  \<open>result.replace(regex, callback)\<close> for the global regular expression that matches the
  escaped quoted text literally: the matches are the non-overlapping occurrences found
  from the left; the callback wraps the match while \<open>replaced\<close> is false and sets it,
  and returns every later match as it is. The source never builds the expression from an
  empty quoted text, and here an empty needle leaves the text alone.
\<close>

function replaceMatches :: "string \<Rightarrow> string \<Rightarrow> bool \<Rightarrow> string \<Rightarrow> string" where
  "replaceMatches needle aid replaced [] = []"
| "replaceMatches needle aid replaced (c # cs) =
     (if needle \<noteq> [] \<and> take (length needle) (c # cs) = needle then
        (if replaced then needle else ''['' @ needle @ '']^['' @ aid @ '']'')
          @ replaceMatches needle aid True (drop (length needle) (c # cs))
      else c # replaceMatches needle aid replaced cs)"
  by pat_completeness auto
termination
  by (relation "measure (\<lambda>(needle, aid, replaced, s). length s)") (auto simp: neq_Nil_conv)

text \<open>
  \<open>insertAnchors\<close>: the threads are sorted by the length of their quoted text, longest
  first (the sort is stable), and each one is given its first occurrence.
\<close>

definition insertAnchors :: "string \<Rightarrow> CommentThread list \<Rightarrow> string" where
  "insertAnchors text threads =
     (let sortedThreads = sort_key (\<lambda>t. - int (length (quotedText t))) threads
      in foldl (\<lambda>result thread.
                  if quotedText thread = [] then result
                  else replaceMatches (quotedText thread) (anchorId thread) False result)
           text sortedThreads)"

text \<open>\<open>paragraph.paragraphStyle?.namedStyleType\<close>.\<close>

definition styleTypeOf :: "Paragraph \<Rightarrow> string option" where
  "styleTypeOf para = (case paragraphStyle para of None \<Rightarrow> None | Some ps \<Rightarrow> namedStyleType ps)"

text \<open>
  One turn of the loop of \<open>transformToMarkdown\<close> over \<open>doc.body.content\<close>: the state
  is the list \<open>lines\<close> and the flag \<open>prevWasList\<close>.
\<close>

definition transformStep ::
  "GoogleDocsDocument \<Rightarrow> CommentThread list \<Rightarrow> string list \<times> bool \<Rightarrow> StructuralElement
     \<Rightarrow> string list \<times> bool" where
  "transformStep doc threads st element =
     (case st of (lines, prevWasList) \<Rightarrow>
      (case elParagraph element of
         None \<Rightarrow> (lines, prevWasList)
       | Some para \<Rightarrow>
          (let styleType = styleTypeOf para;
               isList = (bullet para \<noteq> None);
               rawText = extractTextContent (elements para)
           in if trim rawText = [] then ((if prevWasList then lines else lines @ [[]]), False)
              else
               (let textContent = stripFinalNewline rawText;
                    line0 =
                      (if isList then getListPrefix para doc @ textContent
                       else if styleType = Some ''SUBTITLE'' then ''_'' @ trim textContent @ ''_''
                       else if truthyStr styleType
                               \<and> truthyStr (case styleType of None \<Rightarrow> None | Some s \<Rightarrow> headingLookup s)
                         then orEmpty (case styleType of None \<Rightarrow> None | Some s \<Rightarrow> headingLookup s)
                                @ textContent
                       else textContent);
                    lines1 =
                      (if isList \<and> \<not> prevWasList \<and> length lines > 0 \<and> last lines \<noteq> []
                       then lines @ [[]] else lines);
                    matchingThreads =
                      filter (\<lambda>thread. quotedText thread \<noteq> []
                                         \<and> includesStr textContent (quotedText thread)) threads;
                    line = (if length matchingThreads > 0 then insertAnchors line0 matchingThreads
                            else line0);
                    lines2 = (if \<not> isList \<and> prevWasList then lines1 @ [[]] else lines1);
                    lines3 = lines2 @ [trimEnd line];
                    lines4 =
                      (if \<not> isList then
                         (if length matchingThreads > 0
                          then lines3 @ [[]] @ map formatCommentThread matchingThreads
                          else lines3) @ [[]]
                       else if length matchingThreads > 0
                         then lines3 @ [[]] @ map formatCommentThread matchingThreads
                       else lines3)
                in (lines4, isList)))))"

definition transformToMarkdown :: "GoogleDocsDocument \<Rightarrow> CommentThread list \<Rightarrow> string" where
  "transformToMarkdown doc threads =
     (let hasTitleParagraph =
            list_ex (\<lambda>el. (case elParagraph el of None \<Rightarrow> None | Some p \<Rightarrow> styleTypeOf p)
                             = Some ''TITLE'')
              (bodyContent doc);
          lines0 = (if \<not> hasTitleParagraph then [''# '' @ title doc, []] else []);
          lines = fst (foldl (transformStep doc threads) (lines0, False) (bodyContent doc));
          result = collapseNewlines 0 (join [nl] lines)
      in trimEnd result @ [nl])"

subsection \<open>Drive comments\<close>

record QuotedFileContent =
  quotedValue :: string

record CommentAuthor =
  displayName :: string
  emailAddress :: "string option"

record CommentReply =
  replyContent :: string
  replyAuthor :: CommentAuthor

record DriveComment =
  driveId :: string
  driveContent :: string
  driveResolved :: bool
  quotedFileContent :: "QuotedFileContent option"
  author :: CommentAuthor
  replies :: "CommentReply list"

definition convertDriveComments :: "DriveComment list \<Rightarrow> CommentThread list" where
  "convertDriveComments cs =
     (let kept = filter (\<lambda>comment. \<not> driveResolved comment \<or> quotedFileContent comment \<noteq> None) cs
      in map2 (\<lambda>comment index.
                 \<lparr>threadId = driveId comment,
                  anchorId = ''c'' @ showNat (index + 1),
                  quotedText = orEmpty (map_option quotedValue (quotedFileContent comment)),
                  resolved = driveResolved comment,
                  comments =
                    \<lparr>authorName = displayName (author comment),
                     authorEmail = orEmpty (emailAddress (author comment)),
                     commentContent = driveContent comment,
                     isReply = False\<rparr>
                    # map (\<lambda>reply.
                             \<lparr>authorName = displayName (replyAuthor reply),
                              authorEmail = orEmpty (emailAddress (replyAuthor reply)),
                              commentContent = replyContent reply,
                              isReply = True\<rparr>)
                        (replies comment)\<rparr>)
           kept [0 ..< length kept])"

subsection \<open>Page-filtered transform\<close>

text \<open>
  Modelled from the spec: \<open>transformWithPageFilter\<close>, which the page and the tests
  import from services/transformer.ts and which the source file does not contain.
  Section 4.9: it composes the Page Filter, the Thread Filter/Renumberer and the Document
  Transformer; with no page options it behaves as the Document Transformer on the
  unfiltered document and reports the page count of the Page Estimator with a null page
  range; with page options it returns the filtered markdown, the page count and the
  resolved page range. The defaults of the options are those of section 6: start page 1,
  all remaining pages, 3000 characters per page. The comment count of the result is left
  out: no statement below reads it.
\<close>

record PageFilterOptions =
  optStartPage :: "int option"
  optPageCount :: "int option"
  optCharsPerPage :: "int option"

record PageFilterResult =
  markdown :: string
  resultTotalPages :: int
  pageRange :: "(int \<times> int) option"

definition transformWithPageFilter ::
  "GoogleDocsDocument \<Rightarrow> CommentThread list \<Rightarrow> PageFilterOptions option \<Rightarrow> PageFilterResult" where
  "transformWithPageFilter doc threads options =
     (case options of
        None \<Rightarrow>
          \<lparr>markdown = transformToMarkdown doc threads,
           resultTotalPages = int (length (estimatePages (bodyContent doc) DEFAULT_CHARS_PER_PAGE)),
           pageRange = None\<rparr>
      | Some opts \<Rightarrow>
          (let fr = filterByPageRange (bodyContent doc)
                      (case optStartPage opts of None \<Rightarrow> 1 | Some sp \<Rightarrow> sp)
                      (optPageCount opts)
                      (case optCharsPerPage opts of None \<Rightarrow> DEFAULT_CHARS_PER_PAGE | Some c \<Rightarrow> c);
               kept = filterAndRenumberThreads threads (frElements fr)
           in \<lparr>markdown = transformToMarkdown (doc\<lparr>bodyContent := frElements fr\<rparr>) kept,
               resultTotalPages = totalPages fr,
               pageRange = Some (startPage fr, endPage fr)\<rparr>))"

section \<open>Vocabulary of the statements\<close>

text \<open>The block indices of a page, and the pages whose range holds a given index.\<close>

definition pageIndices :: "PageBoundary \<Rightarrow> nat list" where
  "pageIndices p = [startElementIndex p ..< endElementIndex p]"

definition pageCovers :: "nat \<Rightarrow> PageBoundary \<Rightarrow> bool" where
  "pageCovers k p = (startElementIndex p \<le> k \<and> k < endElementIndex p)"

definition pagesCovering :: "nat \<Rightarrow> PageBoundary list \<Rightarrow> PageBoundary list" where
  "pagesCovering k pages = filter (pageCovers k) pages"

definition nonEmptyPage :: "PageBoundary \<Rightarrow> bool" where
  "nonEmptyPage p = (startElementIndex p < endElementIndex p)"

text \<open>The indices below \<open>n\<close> of the blocks that carry no hard page break, in order.\<close>

definition textBlockIndices :: "StructuralElement list \<Rightarrow> nat \<Rightarrow> nat list" where
  "textBlockIndices els n = filter (\<lambda>k. \<not> hasPageBreak (els ! k)) [0 ..< n]"

text \<open>The anchor identifiers \<open>c1\<close>, ..., \<open>cN\<close>.\<close>

definition anchorIds :: "nat \<Rightarrow> string list" where
  "anchorIds n = map (\<lambda>k. ''c'' @ showNat (Suc k)) [0 ..< n]"

text \<open>
  A thread survives a block sequence when its quoted text is non-empty and occurs in the
  concatenated text of the blocks; and a thread with its anchor identifier blanked, to
  compare threads in everything but that identifier.
\<close>

definition survivesIn :: "StructuralElement list \<Rightarrow> CommentThread \<Rightarrow> bool" where
  "survivesIn els t = (quotedText t \<noteq> [] \<and> includesStr (extractAllText els) (quotedText t))"

definition withoutAnchorId :: "CommentThread \<Rightarrow> CommentThread" where
  "withoutAnchorId t = t\<lparr>anchorId := []\<rparr>"

text \<open>How many positions of a text start an occurrence of a needle.\<close>

fun occurrences :: "string \<Rightarrow> string \<Rightarrow> nat" where
  "occurrences needle [] = 0"
| "occurrences needle (c # cs) =
     (if take (length needle) (c # cs) = needle then 1 else 0) + occurrences needle cs"

text \<open>
  The invariant of the loop of \<open>estimatePages\<close> when it is about to read block \<open>i\<close>:
  the closed pages are numbered from 1, are not empty, end at or before \<open>i\<close>, and
  together with the open page hold, in order, the indices below \<open>i\<close> of the blocks
  without a page break.
\<close>

definition loopInv ::
  "StructuralElement list \<Rightarrow> nat \<Rightarrow> PageBoundary list \<Rightarrow> nat \<Rightarrow> nat \<Rightarrow> nat \<Rightarrow> bool" where
  "loopInv els i pages cps ccc pn =
     (cps \<le> i \<and> i \<le> length els \<and> (cps < i \<or> ccc = 0) \<and> pn = Suc (length pages)
      \<and> map pageNumber pages = [1 ..< pn]
      \<and> concat (map pageIndices pages) @ [cps ..< i] = textBlockIndices els i
      \<and> list_all (\<lambda>p. nonEmptyPage p \<and> endElementIndex p \<le> i) pages)"

text \<open>What the invariant gives for the result of \<open>estimatePages\<close>.\<close>

definition pagesOk :: "StructuralElement list \<Rightarrow> PageBoundary list \<Rightarrow> bool" where
  "pagesOk els pages =
     (pages \<noteq> [] \<and> map pageNumber pages = [1 ..< Suc (length pages)]
      \<and> concat (map pageIndices pages) = textBlockIndices els (length els)
      \<and> list_all nonEmptyPage (butlast pages)
      \<and> list_all (\<lambda>p. startElementIndex p \<le> endElementIndex p \<and> endElementIndex p \<le> length els) pages)"

text \<open>
  The Text Renderer in the words of the spec (section 4.4), for one span: a link target
  makes a markdown link and bold and italic are ignored; otherwise italic is wrapped
  first and bold second. A paragraph element that is no text run is no span.
\<close>

definition specWrapItalic :: "bool \<Rightarrow> string \<Rightarrow> string" where
  "specWrapItalic on t = (if on then ''_'' @ t @ ''_'' else t)"

definition specWrapBold :: "bool \<Rightarrow> string \<Rightarrow> string" where
  "specWrapBold on t = (if on then ''**'' @ t @ ''**'' else t)"

definition specRenderSpan :: "string \<Rightarrow> bool \<Rightarrow> bool \<Rightarrow> string option \<Rightarrow> string" where
  "specRenderSpan t isBold isItalic target =
     (case target of
        Some u \<Rightarrow> ''['' @ t @ '']('' @ u @ '')''
      | None \<Rightarrow> specWrapBold isBold (specWrapItalic isItalic t))"

text \<open>The span that a paragraph element stands for: its link target is its non-empty URL.\<close>

definition spanTarget :: "TextStyle \<Rightarrow> string option" where
  "spanTarget style =
     (case link style of
        None \<Rightarrow> None
      | Some l \<Rightarrow> (case url l of None \<Rightarrow> None | Some u \<Rightarrow> if u = [] then None else Some u))"

definition specRenderElement :: "ParagraphElement \<Rightarrow> string" where
  "specRenderElement element =
     (case textRun element of
        None \<Rightarrow> []
      | Some r \<Rightarrow>
          (case textStyle r of
             None \<Rightarrow> specRenderSpan (content r) False False None
           | Some style \<Rightarrow>
               specRenderSpan (content r) (bold style) (italic style) (spanTarget style)))"

section \<open>Example inputs\<close>

text \<open>A paragraph block with one unstyled text run, as the tests build them.\<close>

definition textBlock :: "string \<Rightarrow> StructuralElement" where
  "textBlock t =
     \<lparr>elParagraph = Some \<lparr>elements = [\<lparr>textRun = Some \<lparr>content = t, textStyle = None\<rparr>,
                                        pageBreak = None\<rparr>],
                          paragraphStyle = None, bullet = None\<rparr>\<rparr>"

text \<open>A paragraph block whose only element is a hard page break.\<close>

definition breakBlock :: StructuralElement where
  "breakBlock =
     \<lparr>elParagraph = Some \<lparr>elements = [\<lparr>textRun = None,
                                        pageBreak = Some \<lparr>pbTextStyle = None\<rparr>\<rparr>],
                          paragraphStyle = None, bullet = None\<rparr>\<rparr>"

definition simpleThread :: "string \<Rightarrow> string \<Rightarrow> string \<Rightarrow> CommentThread" where
  "simpleThread i a q =
     \<lparr>threadId = i, anchorId = a, quotedText = q, resolved = False,
      comments = [\<lparr>authorName = ''Alice'', authorEmail = ''a@t.com'',
                   commentContent = ''Why?'', isReply = False\<rparr>]\<rparr>"

definition simpleDoc :: "string list \<Rightarrow> GoogleDocsDocument" where
  "simpleDoc texts = \<lparr>title = ''Test Doc'', bodyContent = map textBlock texts, lists = Map.empty\<rparr>"

text \<open>The document and thread of the test on a quoted text that two paragraphs contain.\<close>

definition surrenderDoc :: GoogleDocsDocument where
  "surrenderDoc =
     simpleDoc [''First paragraph mentions surrender here.'',
                ''Second paragraph also says surrender again.'']"

definition surrenderThreads :: "CommentThread list" where
  "surrenderThreads = [simpleThread ''1'' ''c1'' ''surrender'']"

text \<open>The document and threads of the test on numbering by document position.\<close>

definition wordDoc :: GoogleDocsDocument where
  "wordDoc =
     simpleDoc [''First paragraph with wordA in it.'', ''Second paragraph with wordB in it.'']"

definition wordThreads :: "CommentThread list" where
  "wordThreads = [simpleThread ''api-first'' ''c1'' ''wordB'', simpleThread ''api-second'' ''c2'' ''wordA'']"

text \<open>The blocks of the test on hard page breaks: a paragraph, a break, a paragraph.\<close>

definition breakBlocks :: "StructuralElement list" where
  "breakBlocks = [textBlock ''Before break'', breakBlock, textBlock ''After break'']"

text \<open>A one-paragraph document with two threads, the first of which quotes a text that
  the document does not contain.\<close>

definition helloDoc :: GoogleDocsDocument where
  "helloDoc = simpleDoc [''Hello world'']"

definition helloThreads :: "CommentThread list" where
  "helloThreads = [simpleThread ''1'' ''c1'' ''Missing text'', simpleThread ''2'' ''c2'' ''Hello'']"

text \<open>Six paragraphs of 1000 characters each, as the tests of the page filter build them.\<close>

definition sixParagraphs :: "StructuralElement list" where
  "sixParagraphs =
     [textBlock (''Para1'' @ replicate 995 CHR ''x''), textBlock (''Para2'' @ replicate 995 CHR ''x''),
      textBlock (''Para3'' @ replicate 995 CHR ''x''), textBlock (''Para4'' @ replicate 995 CHR ''x''),
      textBlock (''Para5'' @ replicate 995 CHR ''x''), textBlock (''Para6'' @ replicate 995 CHR ''x'')]"

text \<open>Three threads on the first, fourth and fifth of the six paragraphs.\<close>

definition sixThreads :: "CommentThread list" where
  "sixThreads =
     [simpleThread ''1'' ''c1'' ''Para1'', simpleThread ''2'' ''c2'' ''Para4'',
      simpleThread ''3'' ''c3'' ''Para5'']"

text \<open>
  The Drive comments that are both resolved and without quoted content, and the quoted
  text of a comment (empty when it has none).
\<close>

definition droppedComment :: "DriveComment \<Rightarrow> bool" where
  "droppedComment c = (driveResolved c \<and> quotedFileContent c = None)"

definition commentQuote :: "DriveComment \<Rightarrow> string" where
  "commentQuote c = (case quotedFileContent c of None \<Rightarrow> [] | Some q \<Rightarrow> quotedValue q)"

text \<open>Drive comments: resolved or not, with or without quoted content.\<close>

definition driveComment :: "string \<Rightarrow> bool \<Rightarrow> string option \<Rightarrow> DriveComment" where
  "driveComment i r q =
     \<lparr>driveId = i, driveContent = ''Note'', driveResolved = r,
      quotedFileContent = map_option (\<lambda>v. \<lparr>quotedValue = v\<rparr>) q,
      author = \<lparr>displayName = ''Alice'', emailAddress = None\<rparr>, replies = []\<rparr>"

definition driveComments :: "DriveComment list" where
  "driveComments =
     [driveComment ''A'' True None, driveComment ''B'' False None,
      driveComment ''C'' True (Some ''text3''), driveComment ''D'' False (Some ''text4'')]"

definition helloWorldThreads :: "CommentThread list" where
  "helloWorldThreads = [simpleThread ''1'' ''c1'' ''Hello'', simpleThread ''2'' ''c2'' ''world'']"

text \<open>A paragraph element that is a text run with a style: bold, italic, link target.\<close>

definition styledSpan :: "string \<Rightarrow> bool \<Rightarrow> bool \<Rightarrow> string option \<Rightarrow> ParagraphElement" where
  "styledSpan t isBold isItalic target =
     \<lparr>textRun = Some \<lparr>content = t,
                       textStyle = Some \<lparr>bold = isBold, italic = isItalic,
                                         link = map_option (\<lambda>u. \<lparr>url = Some u\<rparr>) target\<rparr>\<rparr>,
      pageBreak = None\<rparr>"

text \<open>The page options \<open>startPage = 1\<close> with no page count and no budget.\<close>

definition fromFirstPage :: "PageFilterOptions" where
  "fromFirstPage = \<lparr>optStartPage = Some 1, optPageCount = None, optCharsPerPage = None\<rparr>"

text \<open>
  A document of two paragraphs, the second of which holds a hard page break in front of
  its text.
\<close>

definition breakTextDoc :: GoogleDocsDocument where
  "breakTextDoc =
     \<lparr>title = ''Test Doc'',
      bodyContent =
        [textBlock ''Intro'',
         \<lparr>elParagraph =
            Some \<lparr>elements = [\<lparr>textRun = None, pageBreak = Some \<lparr>pbTextStyle = None\<rparr>\<rparr>,
                              \<lparr>textRun = Some \<lparr>content = ''Chapter one'', textStyle = None\<rparr>,
                               pageBreak = None\<rparr>],
                  paragraphStyle = None, bullet = None\<rparr>\<rparr>],
      lists = Map.empty\<rparr>"

section \<open>Substring test and anchor replacement\<close>

text \<open>
  The substring test holds exactly when the text splits around the needle, and the
  replacement with the callback wraps the leftmost occurrence and nothing else.
\<close>

lemma includesStr_iff:
  "includesStr hay needle \<longleftrightarrow> (\<exists>pre post. hay = pre @ needle @ post)"
proof (induction hay)
  case Nil
  then show ?case by auto
next
  case (Cons c cs)
  show ?case
  proof
    assume "includesStr (c # cs) needle"
    then consider "take (length needle) (c # cs) = needle" | "includesStr cs needle" by auto
    then show "\<exists>pre post. c # cs = pre @ needle @ post"
    proof cases
      case 1
      then have "c # cs = [] @ needle @ drop (length needle) (c # cs)"
        by (metis append_Nil append_take_drop_id)
      then show ?thesis by blast
    next
      case 2
      with Cons.IH obtain pre post where "cs = pre @ needle @ post" by blast
      then have "c # cs = (c # pre) @ needle @ post" by simp
      then show ?thesis by blast
    qed
  next
    assume "\<exists>pre post. c # cs = pre @ needle @ post"
    then obtain pre post where eq: "c # cs = pre @ needle @ post" by blast
    show "includesStr (c # cs) needle"
    proof (cases pre)
      case Nil
      with eq have "take (length needle) (c # cs) = needle" by simp
      then show ?thesis by simp
    next
      case (Cons p pre')
      with eq have "cs = pre' @ needle @ post" by simp
      with Cons.IH have "includesStr cs needle" by blast
      then show ?thesis by simp
    qed
  qed
qed

lemma replaceMatches_done: "replaceMatches needle aid True s = s"
proof (induction needle aid "True" s rule: replaceMatches.induct)
  case (1 needle aid)
  then show ?case by simp
next
  case (2 needle aid c cs)
  show ?case
  proof (cases "needle \<noteq> [] \<and> take (length needle) (c # cs) = needle")
    case True
    then have "needle @ drop (length needle) (c # cs) = c # cs"
      by (metis append_take_drop_id)
    with True 2 show ?thesis by simp
  next
    case False
    with 2 show ?thesis by auto
  qed
qed

lemma replaceMatches_first:
  assumes "needle \<noteq> []" and "\<not> includesStr (pre @ butlast needle) needle"
  shows "replaceMatches needle aid False (pre @ needle @ post)
           = pre @ ''['' @ needle @ '']^['' @ aid @ '']'' @ post"
  using assms
proof (induction pre)
  case Nil
  then show ?case by (cases needle) (simp_all add: replaceMatches_done)
next
  case (Cons p pre)
  from Cons.prems(2) have early: "take (length needle) ((p # pre) @ butlast needle) \<noteq> needle"
    and rest: "\<not> includesStr (pre @ butlast needle) needle"
    by simp_all
  have "needle @ post = butlast needle @ (last needle # post)"
    using Cons.prems(1) by (metis append_butlast_last_id append_Cons append_Nil append_assoc)
  then have "(p # pre) @ needle @ post = ((p # pre) @ butlast needle) @ (last needle # post)"
    by simp
  moreover have "length needle \<le> length ((p # pre) @ butlast needle)"
    by simp
  ultimately have "take (length needle) ((p # pre) @ needle @ post)
                     = take (length needle) ((p # pre) @ butlast needle)"
    by (metis take_all_iff take_append order_refl diff_is_0_eq take_0 append_Nil2)
  with early have "take (length needle) (p # (pre @ needle @ post)) \<noteq> needle" by simp
  then have "replaceMatches needle aid False ((p # pre) @ needle @ post)
               = p # replaceMatches needle aid False (pre @ needle @ post)"
    by simp
  with Cons.IH[OF Cons.prems(1) rest] show ?case by simp
qed

section \<open>Rounded arithmetic\<close>

text \<open>
  Sums of magnitude up to \<open>2 ^ 53\<close> are exact, and rounding a larger number never
  takes it below \<open>2 ^ 53\<close>.
\<close>

lemma jsRound_exact: "\<bar>x\<bar> \<le> 2 ^ 53 \<Longrightarrow> jsRound x = x"
  by (simp add: jsRound_def)

lemma bitLength_upper: "0 \<le> m \<Longrightarrow> m < 2 ^ bitLength m"
proof (induction m rule: bitLength.induct)
  case (1 n)
  show ?case
  proof (cases "n \<le> 0")
    case True
    with 1 show ?thesis by (simp add: bitLength.simps)
  next
    case False
    then have "n div 2 < 2 ^ bitLength (n div 2)" using 1 by simp
    then have "n < 2 * 2 ^ bitLength (n div 2)" by linarith
    with False show ?thesis by (simp add: bitLength.simps[of n])
  qed
qed

lemma bitLength_lower: "0 < m \<Longrightarrow> 2 ^ (bitLength m - 1) \<le> m"
proof (induction m rule: bitLength.induct)
  case (1 n)
  show ?case
  proof (cases "n div 2 \<le> 0")
    case True
    have "0 \<le> n div 2" using 1(2) by (simp add: pos_imp_zdiv_nonneg_iff)
    with True have "n div 2 = 0" by simp
    with 1 have "bitLength n = 1" by (simp add: bitLength.simps[of n] bitLength.simps[of 0])
    with 1 show ?thesis by simp
  next
    case False
    then have ih: "2 ^ (bitLength (n div 2) - 1) \<le> n div 2" using 1 by simp
    from False have pos: "0 < bitLength (n div 2)" by (simp add: bitLength.simps[of "n div 2"])
    have "bitLength n = Suc (bitLength (n div 2))" using 1 by (simp add: bitLength.simps[of n])
    then have "(2::int) ^ (bitLength n - 1) = 2 * 2 ^ (bitLength (n div 2) - 1)"
      using pos by (cases "bitLength (n div 2)") simp_all
    with ih show ?thesis by linarith
  qed
qed

lemma jsRound_large:
  assumes "2 ^ 53 < x"
  shows "2 ^ 53 \<le> jsRound x"
proof -
  let ?L = "bitLength x"
  have xpos: "0 < x" using assms by (smt (verit) zero_less_power)
  have "(2::int) ^ 53 < 2 ^ ?L" using assms bitLength_upper[of x] xpos by linarith
  have L: "53 < ?L"
  proof (rule ccontr)
    assume "\<not> 53 < ?L"
    then have "?L \<le> 53" by simp
    then have "(2::int) ^ ?L \<le> 2 ^ 53" by (intro power_increasing) simp_all
    with \<open>(2::int) ^ 53 < 2 ^ ?L\<close> show False by linarith
  qed
  define e where "e = ?L - 53"
  have e1: "1 \<le> e" and Le: "?L - 1 = 52 + e" using L by (simp_all add: e_def)
  have low: "(2::int) ^ 52 * 2 ^ e \<le> x"
    using bitLength_lower[OF xpos] unfolding Le by (simp add: power_add)
  have q: "(2::int) ^ 52 \<le> x div 2 ^ e"
  proof -
    have "(2::int) ^ 52 * 2 ^ e div 2 ^ e \<le> x div 2 ^ e"
      by (rule zdiv_mono1[OF low]) simp
    then show ?thesis by simp
  qed
  define q1 where "q1 = (if x mod 2 ^ e > 2 ^ (e - 1) \<or> (x mod 2 ^ e = 2 ^ (e - 1) \<and> odd (x div 2 ^ e))
                         then x div 2 ^ e + 1 else x div 2 ^ e)"
  have q1: "(2::int) ^ 52 \<le> q1" using q by (simp add: q1_def)
  have "(2::int) ^ 1 \<le> 2 ^ e" using e1 by (intro power_increasing) simp_all
  then have two: "(2::int) \<le> 2 ^ e" by simp
  have "(2::int) ^ 52 * 2 \<le> q1 * 2 ^ e"
    using q1 two by (intro mult_mono) simp_all
  then have "(2::int) ^ 53 \<le> q1 * 2 ^ e" by simp
  moreover have "jsRound x = q1 * 2 ^ e"
    using assms xpos by (simp add: jsRound_def Let_def e_def q1_def)
  ultimately show ?thesis by simp
qed

lemma jsSub_jsAdd_exact:
  assumes "1 \<le> a" and "a \<le> n" and "- (2 ^ 53) \<le> c" and "c + n \<le> 2 ^ 53"
  shows "jsSub (jsAdd a c) 1 = a + c - 1"
proof -
  have "\<bar>a + c\<bar> \<le> 2 ^ 53" using assms by linarith
  then have add: "jsAdd a c = a + c" by (simp add: jsAdd_def jsRound_exact)
  have "\<bar>a + c - 1\<bar> \<le> 2 ^ 53" using assms by linarith
  then show ?thesis unfolding jsSub_def add by (rule jsRound_exact)
qed

lemma jsSub_jsAdd_2_1: "jsSub (jsAdd 2 1) 1 = 2"
  by code_simp

lemma jsSub_jsAdd_ge:
  assumes "1 \<le> n" and "n < 2 ^ 53" and "1 \<le> c"
  shows "n \<le> jsSub (jsAdd n c) 1"
proof (cases "n + c \<le> 2 ^ 53")
  case True
  then have "jsSub (jsAdd n c) 1 = n + c - 1"
    using assms by (intro jsSub_jsAdd_exact[of n n c]) linarith+
  with assms show ?thesis by linarith
next
  case False
  then have big: "2 ^ 53 \<le> jsAdd n c"
    unfolding jsAdd_def by (intro jsRound_large) linarith
  show ?thesis
  proof (cases "jsAdd n c - 1 \<le> 2 ^ 53")
    case True
    have "(1::int) \<le> 2 ^ 53" by simp
    with True big have "\<bar>jsAdd n c - 1\<bar> \<le> 2 ^ 53" by linarith
    then have "jsSub (jsAdd n c) 1 = jsAdd n c - 1" unfolding jsSub_def by (rule jsRound_exact)
    with big assms show ?thesis by linarith
  next
    case False
    then have "2 ^ 53 \<le> jsSub (jsAdd n c) 1"
      unfolding jsSub_def by (intro jsRound_large) linarith
    with assms show ?thesis by linarith
  qed
qed

section \<open>The loop of the page estimator\<close>

lemma textBlockIndices_Suc:
  "textBlockIndices els (Suc i) =
     textBlockIndices els i @ (if hasPageBreak (els ! i) then [] else [i])"
  by (simp add: textBlockIndices_def)

lemma closed_pages_later:
  "list_all (\<lambda>p. nonEmptyPage p \<and> endElementIndex p \<le> i) pages
   \<Longrightarrow> list_all (\<lambda>p. nonEmptyPage p \<and> endElementIndex p \<le> Suc i) pages"
  by (induction pages) auto

lemma nonEmptyPage_make:
  "nonEmptyPage \<lparr>pageNumber = a, startElementIndex = b, endElementIndex = c, charCount = d\<rparr>
     = (b < c)"
  by (simp add: nonEmptyPage_def)

lemma loopInv_break_push:
  assumes "loopInv els i pages cps ccc pn" "i < length els" "hasPageBreak (els ! i)"
    "cps < i \<or> ccc > 0"
  shows "loopInv els (Suc i)
           (pages @ [\<lparr>pageNumber = pn, startElementIndex = cps, endElementIndex = i, charCount = ccc\<rparr>])
           (Suc i) 0 (Suc pn)"
  using assms
  by (auto simp: loopInv_def textBlockIndices_Suc pageIndices_def nonEmptyPage_make closed_pages_later)

lemma loopInv_break_skip:
  assumes "loopInv els i pages cps ccc pn" "i < length els" "hasPageBreak (els ! i)"
    "\<not> (cps < i \<or> ccc > 0)"
  shows "loopInv els (Suc i) pages (Suc i) 0 pn"
  using assms
  by (auto simp: loopInv_def textBlockIndices_Suc closed_pages_later)

lemma loopInv_split:
  assumes "loopInv els i pages cps ccc pn" "i < length els" "\<not> hasPageBreak (els ! i)"
    "cps < i"
  shows "loopInv els (Suc i)
           (pages @ [\<lparr>pageNumber = pn, startElementIndex = cps, endElementIndex = i, charCount = c1\<rparr>])
           i c2 (Suc pn)"
  using assms
  by (auto simp: loopInv_def textBlockIndices_Suc pageIndices_def nonEmptyPage_make closed_pages_later)

lemma loopInv_keep:
  assumes "loopInv els i pages cps ccc pn" "i < length els" "\<not> hasPageBreak (els ! i)"
  shows "loopInv els (Suc i) pages cps c2 pn"
  using assms
  by (auto simp: loopInv_def textBlockIndices_Suc closed_pages_later)

lemma estimateLoop_inv:
  assumes "loopInv els i pages cps ccc pn" "drop i els = rest"
    "estimateLoop cpp rest i pages cps ccc pn = (pages', cps', ccc', pn')"
  shows "loopInv els (length els) pages' cps' ccc' pn'"
  using assms
proof (induction rest arbitrary: i pages cps ccc pn)
  case Nil
  then have "i = length els" by (simp add: loopInv_def)
  with Nil show ?case by simp
next
  case (Cons element rest)
  have ilt: "i < length els" using Cons.prems(2) by (cases "i < length els") auto
  have el: "els ! i = element" using Cons.prems(2) ilt by (metis nth_via_drop)
  have dr: "drop (Suc i) els = rest" using Cons.prems(2) by (metis drop_Suc tl_drop list.sel(3))
  show ?case
  proof (cases "hasPageBreak element")
    case True
    show ?thesis
    proof (cases "cps < i \<or> ccc > 0")
      case push: True
      have "loopInv els (Suc i)
           (pages @ [\<lparr>pageNumber = pn, startElementIndex = cps, endElementIndex = i, charCount = ccc\<rparr>])
           (Suc i) 0 (Suc pn)"
        using loopInv_break_push[OF Cons.prems(1) ilt _ push] True el by simp
      from Cons.IH[OF this dr] Cons.prems(3) True push show ?thesis by simp
    next
      case skip: False
      have "loopInv els (Suc i) pages (Suc i) 0 pn"
        using loopInv_break_skip[OF Cons.prems(1) ilt _ skip] True el by simp
      from Cons.IH[OF this dr] Cons.prems(3) True skip show ?thesis by simp
    qed
  next
    case False
    show ?thesis
    proof (cases "int (ccc + getElementCharCount element) > cpp \<and> i > cps")
      case split: True
      have "loopInv els (Suc i)
           (pages @ [\<lparr>pageNumber = pn, startElementIndex = cps, endElementIndex = i,
                      charCount = ccc + getElementCharCount element - getElementCharCount element\<rparr>])
           i (getElementCharCount element) (Suc pn)"
        using loopInv_split[OF Cons.prems(1) ilt] False el split by simp
      from Cons.IH[OF this dr] Cons.prems(3) False split show ?thesis by (simp add: Let_def)
    next
      case keep: False
      have "loopInv els (Suc i) pages cps (ccc + getElementCharCount element) pn"
        using loopInv_keep[OF Cons.prems(1) ilt] False el by simp
      from Cons.IH[OF this dr] Cons.prems(3) False keep show ?thesis
        by (auto simp: Let_def split: if_splits)
    qed
  qed
qed

lemma closed_pages_weaken:
  "list_all (\<lambda>p. nonEmptyPage p \<and> endElementIndex p \<le> n) pages \<Longrightarrow>
   list_all nonEmptyPage pages
   \<and> list_all (\<lambda>p. startElementIndex p \<le> endElementIndex p \<and> endElementIndex p \<le> n) pages"
  by (induction pages) (auto simp: nonEmptyPage_def)

lemma list_all_butlast: "list_all P xs \<Longrightarrow> list_all P (butlast xs)"
  by (induction xs) auto

lemma estimatePages_ok: "pagesOk els (estimatePages els cpp)"
proof (cases "els = []")
  case True
  then show ?thesis
    by (simp add: estimatePages_def pagesOk_def pageIndices_def textBlockIndices_def)
next
  case False
  obtain pages cps ccc pn where loop: "estimateLoop cpp els 0 [] 0 0 1 = (pages, cps, ccc, pn)"
    by (metis prod_cases4)
  have "loopInv els 0 [] 0 0 1"
    by (simp add: loopInv_def textBlockIndices_def)
  from estimateLoop_inv[OF this _ loop] have inv: "loopInv els (length els) pages cps ccc pn"
    by simp
  from inv have closed:
    "list_all nonEmptyPage pages"
    "list_all (\<lambda>p. startElementIndex p \<le> endElementIndex p \<and> endElementIndex p \<le> length els) pages"
    using closed_pages_weaken[of "length els" pages] by (simp_all add: loopInv_def)
  show ?thesis
  proof (cases "int cps \<le> int (length els) - 1 \<or> length pages = 0")
    case True
    then have res: "estimatePages els cpp =
        pages @ [\<lparr>pageNumber = pn, startElementIndex = cps, endElementIndex = length els,
                  charCount = ccc\<rparr>]"
      using False loop by (simp add: estimatePages_def)
    show ?thesis
      unfolding res pagesOk_def using inv closed
      by (auto simp: loopInv_def pageIndices_def)
  next
    case stop: False
    then have res: "estimatePages els cpp = pages"
      using False loop by (simp add: estimatePages_def)
    from stop inv have "cps = length els" "pages \<noteq> []"
      by (auto simp: loopInv_def)
    then show ?thesis
      unfolding res pagesOk_def using inv closed
      by (auto simp: loopInv_def list_all_butlast)
  qed
qed

lemma covering_count:
  "distinct (concat (map pageIndices pages)) \<Longrightarrow>
   length (pagesCovering k pages) = (if k \<in> set (concat (map pageIndices pages)) then 1 else 0)"
proof (induction pages)
  case Nil
  then show ?case by (simp add: pagesCovering_def)
next
  case (Cons p pages)
  have cov: "pageCovers k p \<longleftrightarrow> k \<in> set (pageIndices p)"
    by (auto simp: pageCovers_def pageIndices_def)
  from Cons show ?case
    using cov by (auto simp: pagesCovering_def)
qed

lemma textBlockIndices_distinct: "distinct (textBlockIndices els n)"
  by (simp add: textBlockIndices_def)

lemma textBlockIndices_set:
  "k \<in> set (textBlockIndices els n) \<longleftrightarrow> k < n \<and> \<not> hasPageBreak (els ! k)"
  by (auto simp: textBlockIndices_def)

lemma estimatePages_covering:
  "length (pagesCovering k (estimatePages els cpp)) =
     (if k < length els \<and> \<not> hasPageBreak (els ! k) then 1 else 0)"
proof -
  have eq: "concat (map pageIndices (estimatePages els cpp)) = textBlockIndices els (length els)"
    using estimatePages_ok[of els cpp] by (simp add: pagesOk_def)
  have "distinct (concat (map pageIndices (estimatePages els cpp)))"
    unfolding eq by (rule textBlockIndices_distinct)
  from covering_count[OF this, of k] show ?thesis
    unfolding eq by (simp add: textBlockIndices_set)
qed

lemma estimatePages_breakBlocks:
  "estimatePages breakBlocks DEFAULT_CHARS_PER_PAGE =
     [\<lparr>pageNumber = 1, startElementIndex = 0, endElementIndex = 1, charCount = 12\<rparr>,
      \<lparr>pageNumber = 2, startElementIndex = 2, endElementIndex = 3, charCount = 11\<rparr>]"
  by code_simp

lemma estimatePages_single:
  assumes "\<not> hasPageBreak e"
  shows "estimatePages [e] cpp =
     [\<lparr>pageNumber = 1, startElementIndex = 0, endElementIndex = 1,
       charCount = getElementCharCount e\<rparr>]"
  using assms by (simp add: estimatePages_def Let_def)

section \<open>Page estimator: coverage of the input\<close>

text \<open>
  Claim C3, as the code has it. The pages returned by \<open>estimatePages\<close> are numbered
  1, 2, ... in order, and their half-open ranges, read in order, list exactly the indices
  of the blocks that carry no hard page break, each once and in increasing order: every
  such index lies in exactly one range, and the index of a block with a hard page break
  lies in none.
\<close>

theorem estimatePages_cover:
  "map pageNumber (estimatePages els cpp) = [1 ..< Suc (length (estimatePages els cpp))]
   \<and> concat (map pageIndices (estimatePages els cpp)) = textBlockIndices els (length els)
   \<and> (\<forall>k < length els. length (pagesCovering k (estimatePages els cpp))
                           = (if hasPageBreak (els ! k) then 0 else 1))"
  using estimatePages_ok[of els cpp] by (simp add: pagesOk_def estimatePages_covering)

text \<open>The statement at the blocks of the page-break test: a paragraph, a break, a paragraph.\<close>

theorem estimatePages_cover_witness:
  "length (pagesCovering 0 (estimatePages breakBlocks DEFAULT_CHARS_PER_PAGE)) = 1
   \<and> length (pagesCovering 1 (estimatePages breakBlocks DEFAULT_CHARS_PER_PAGE)) = 0
   \<and> length (pagesCovering 2 (estimatePages breakBlocks DEFAULT_CHARS_PER_PAGE)) = 1
   \<and> map pageNumber (estimatePages breakBlocks DEFAULT_CHARS_PER_PAGE) = [1, 2]"
proof -
  have len: "length breakBlocks = 3" by (simp add: breakBlocks_def)
  have brk: "\<not> hasPageBreak (breakBlocks ! 0)" "hasPageBreak (breakBlocks ! 1)"
    "\<not> hasPageBreak (breakBlocks ! 2)"
    by (simp_all add: breakBlocks_def hasPageBreak_def textBlock_def breakBlock_def)
  have two: "length (estimatePages breakBlocks DEFAULT_CHARS_PER_PAGE) = 2"
    by (simp add: estimatePages_breakBlocks)
  from estimatePages_cover[of breakBlocks DEFAULT_CHARS_PER_PAGE]
  have num: "map pageNumber (estimatePages breakBlocks DEFAULT_CHARS_PER_PAGE)
               = [1 ..< Suc (length (estimatePages breakBlocks DEFAULT_CHARS_PER_PAGE))]"
    and cov: "\<And>k. k < 3 \<Longrightarrow> length (pagesCovering k (estimatePages breakBlocks DEFAULT_CHARS_PER_PAGE))
                    = (if hasPageBreak (breakBlocks ! k) then 0 else 1)"
    by (simp_all add: len)
  have "[1 ..< Suc 2] = [1, 2::nat]" by (simp add: upt_rec)
  with num two cov[of 0] cov[of 1] cov[of 2] brk show ?thesis by simp
qed

text \<open>
  The claim as worded also puts the index of a block with a hard page break into exactly
  one range. In the page-break test the break is block 1, and no page covers it.
\<close>

theorem estimatePages_break_uncovered:
  "1 < length breakBlocks \<and> hasPageBreak (breakBlocks ! 1)
   \<and> pagesCovering 1 (estimatePages breakBlocks DEFAULT_CHARS_PER_PAGE) = []"
  by code_simp

section \<open>Page estimator: a block is never split\<close>

text \<open>
  Claim C5, as the code has it. No block index lies in the range of two pages; a block
  without a hard page break lies in exactly one page, whatever its character count and
  the budget; every page that is closed before the last one holds at least one block, so
  a page is never closed in front of a block that would be the first of its page; and an
  input of one block without a hard page break gives exactly one page, which holds that
  block.
\<close>

theorem estimatePages_never_splits:
  "length (pagesCovering k (estimatePages els cpp)) \<le> 1
   \<and> (k < length els \<and> \<not> hasPageBreak (els ! k)
        \<longrightarrow> length (pagesCovering k (estimatePages els cpp)) = 1)
   \<and> list_all nonEmptyPage (butlast (estimatePages els cpp))
   \<and> (\<not> hasPageBreak e \<longrightarrow>
        estimatePages [e] cpp =
          [\<lparr>pageNumber = 1, startElementIndex = 0, endElementIndex = 1,
            charCount = getElementCharCount e\<rparr>])"
  using estimatePages_ok[of els cpp]
  by (simp add: pagesOk_def estimatePages_covering estimatePages_single)

text \<open>The statement at one paragraph of 5000 characters with the budget of 3000.\<close>

theorem estimatePages_never_splits_witness:
  "DEFAULT_CHARS_PER_PAGE < int (getElementCharCount (textBlock (replicate 5000 CHR ''x'')))
   \<and> estimatePages [textBlock (replicate 5000 CHR ''x'')] DEFAULT_CHARS_PER_PAGE =
        [\<lparr>pageNumber = 1, startElementIndex = 0, endElementIndex = 1, charCount = 5000\<rparr>]
   \<and> length (pagesCovering 0 (estimatePages [textBlock (replicate 5000 CHR ''x'')]
                                 DEFAULT_CHARS_PER_PAGE)) = 1"
proof -
  let ?e = "textBlock (replicate 5000 CHR ''x'')"
  have nb: "\<not> hasPageBreak ?e" by (simp add: hasPageBreak_def textBlock_def)
  have cc: "getElementCharCount ?e = 5000" by (simp add: getElementCharCount_def textBlock_def)
  from estimatePages_never_splits[of 0 "[?e]" DEFAULT_CHARS_PER_PAGE ?e] nb cc
  show ?thesis by (simp add: DEFAULT_CHARS_PER_PAGE_def pagesCovering_def pageCovers_def)
qed

text \<open>
  The claim as worded speaks of every one-block input. When the one block carries a hard
  page break, the single page returned is the empty range from 1 to 1, which does not
  hold block 0.
\<close>

theorem estimatePages_single_break_block:
  "length [breakBlock] = 1
   \<and> estimatePages [breakBlock] DEFAULT_CHARS_PER_PAGE =
        [\<lparr>pageNumber = 1, startElementIndex = 1, endElementIndex = 1, charCount = 0\<rparr>]
   \<and> pagesCovering 0 (estimatePages [breakBlock] DEFAULT_CHARS_PER_PAGE) = []"
  by code_simp

section \<open>Renumbering\<close>

lemma renumber_anchorIds:
  "map anchorId (map2 (\<lambda>thread index. thread\<lparr>anchorId := ''c'' @ showNat (index + 1)\<rparr>)
                   xs [0 ..< length xs]) = anchorIds (length xs)"
  by (rule nth_equalityI) (simp_all add: anchorIds_def)

lemma filterAndRenumberThreads_anchorIds:
  "map anchorId (filterAndRenumberThreads threads els)
     = anchorIds (length (filterAndRenumberThreads threads els))"
proof -
  let ?matching = "filter (\<lambda>thread. quotedText thread \<noteq> []
                             \<and> includesStr (extractAllText els) (quotedText thread)) threads"
  have len: "length (filterAndRenumberThreads threads els) = length ?matching"
    by (simp add: filterAndRenumberThreads_def Let_def)
  have "map anchorId (filterAndRenumberThreads threads els) = anchorIds (length ?matching)"
    unfolding filterAndRenumberThreads_def Let_def by (rule renumber_anchorIds)
  with len show ?thesis by simp
qed

lemma renumber_threads:
  "map withoutAnchorId (map2 (\<lambda>thread index. thread\<lparr>anchorId := ''c'' @ showNat (index + 1)\<rparr>)
                          xs [0 ..< length xs]) = map withoutAnchorId xs"
  by (rule nth_equalityI) (simp_all add: withoutAnchorId_def)

lemma filterAndRenumberThreads_survivors:
  "map withoutAnchorId (filterAndRenumberThreads threads els)
     = map withoutAnchorId (filter (survivesIn els) threads)"
  "map anchorId (filterAndRenumberThreads threads els)
     = anchorIds (length (filter (survivesIn els) threads))"
proof -
  have same: "(\<lambda>thread. quotedText thread \<noteq> []
                        \<and> includesStr (extractAllText els) (quotedText thread)) = survivesIn els"
    by (simp add: survivesIn_def fun_eq_iff)
  show "map withoutAnchorId (filterAndRenumberThreads threads els)
          = map withoutAnchorId (filter (survivesIn els) threads)"
    unfolding filterAndRenumberThreads_def Let_def same by (rule renumber_threads)
  show "map anchorId (filterAndRenumberThreads threads els)
          = anchorIds (length (filter (survivesIn els) threads))"
    unfolding filterAndRenumberThreads_def Let_def same by (rule renumber_anchorIds)
qed

lemma renumber_same:
  assumes "map anchorId xs = anchorIds (length xs)"
  shows "map2 (\<lambda>thread index. thread\<lparr>anchorId := ''c'' @ showNat (index + 1)\<rparr>)
           xs [0 ..< length xs] = xs"
proof (rule nth_equalityI)
  show "length (map2 (\<lambda>thread index. thread\<lparr>anchorId := ''c'' @ showNat (index + 1)\<rparr>)
                  xs [0 ..< length xs]) = length xs"
    by simp
next
  fix k
  assume "k < length (map2 (\<lambda>thread index. thread\<lparr>anchorId := ''c'' @ showNat (index + 1)\<rparr>)
                        xs [0 ..< length xs])"
  then have k: "k < length xs" by simp
  have "map anchorId xs ! k = anchorIds (length xs) ! k" using assms by simp
  with k have "anchorId (xs ! k) = ''c'' @ showNat (Suc k)" by (simp add: anchorIds_def)
  with k show "map2 (\<lambda>thread index. thread\<lparr>anchorId := ''c'' @ showNat (index + 1)\<rparr>)
                 xs [0 ..< length xs] ! k = xs ! k"
    by simp
qed

lemma filterAndRenumberThreads_same:
  assumes "map anchorId threads = anchorIds (length threads)"
    and "list_all (\<lambda>t. quotedText t \<noteq> [] \<and> includesStr (extractAllText els) (quotedText t)) threads"
  shows "filterAndRenumberThreads threads els = threads"
proof -
  have "filter (\<lambda>thread. quotedText thread \<noteq> []
                            \<and> includesStr (extractAllText els) (quotedText thread)) threads = threads"
    using assms(2) by (simp add: list_all_iff)
  then show ?thesis
    using renumber_same[OF assms(1)] by (simp add: filterAndRenumberThreads_def Let_def)
qed

text \<open>
  Claim C9. When the anchor identifiers of a thread list are already \<open>c1\<close>, ...,
  \<open>cN\<close> in list order and every quoted text is non-empty and occurs in the
  concatenated text of the given blocks, \<open>filterAndRenumberThreads\<close> returns the list
  unchanged.
\<close>

theorem renumbering_identity:
  assumes "map anchorId threads = anchorIds (length threads)"
    and "list_all (\<lambda>t. quotedText t \<noteq> [] \<and> includesStr (extractAllText els) (quotedText t)) threads"
  shows "filterAndRenumberThreads threads els = threads"
  using assms by (rule filterAndRenumberThreads_same)

theorem renumbering_identity_witness:
  "filterAndRenumberThreads helloWorldThreads [textBlock ''Hello world''] = helloWorldThreads"
proof -
  have ids: "map anchorId helloWorldThreads = anchorIds (length helloWorldThreads)"
    by code_simp
  have found: "list_all (\<lambda>t. quotedText t \<noteq> []
                  \<and> includesStr (extractAllText [textBlock ''Hello world'']) (quotedText t))
                 helloWorldThreads"
    by code_simp
  show ?thesis by (rule renumbering_identity[OF ids found])
qed

section \<open>The six-paragraph scenario\<close>

lemma six_blocks:
  assumes "length (els :: 'a list) = 6"
  obtains a b c d e f where "els = [a, b, c, d, e, f]"
  using assms by (auto simp: eval_nat_numeral length_Suc_conv)

lemma estimatePages_six:
  assumes "length els = 6"
    and "list_all (\<lambda>e. \<not> hasPageBreak e \<and> getElementCharCount e = 1000) els"
  shows "estimatePages els 3000 =
           [\<lparr>pageNumber = 1, startElementIndex = 0, endElementIndex = 3, charCount = 3000\<rparr>,
            \<lparr>pageNumber = 2, startElementIndex = 3, endElementIndex = 6, charCount = 3000\<rparr>]"
proof -
  from assms(1) obtain a b c d e f where els: "els = [a, b, c, d, e, f]" by (rule six_blocks)
  with assms(2) show ?thesis
    by (simp add: estimatePages_def Let_def)
qed

lemma filterByPageRange_six:
  assumes "length els = 6"
    and "list_all (\<lambda>e. \<not> hasPageBreak e \<and> getElementCharCount e = 1000) els"
  shows "filterByPageRange els 2 (Some 1) 3000 =
           \<lparr>frElements = drop 3 els, totalPages = 2, startPage = 2, endPage = 2\<rparr>"
proof -
  from assms(1) obtain a b c d e f where els: "els = [a, b, c, d, e, f]" by (rule six_blocks)
  have "[3 ..< 6] = [3, 4, 5::nat]" by (simp add: upt_rec)
  then show ?thesis
    unfolding filterByPageRange_def estimatePages_six[OF assms]
    by (simp add: Let_def pageElements_def els jsSub_jsAdd_2_1)
qed

lemma sixParagraphs_ok:
  "length sixParagraphs = 6"
  "list_all (\<lambda>e. \<not> hasPageBreak e \<and> getElementCharCount e = 1000) sixParagraphs"
  by (simp_all add: sixParagraphs_def hasPageBreak_def getElementCharCount_def textBlock_def list_all_iff)

text \<open>
  Claim C6. For six blocks without a hard page break, of 1000 characters each, and a
  budget of 3000: \<open>estimatePages\<close> returns the two pages of blocks 0 to 2 and 3 to 5;
  \<open>filterByPageRange\<close> with start page 2 and page count 1 returns the last three blocks
  (and reports two pages, start 2, end 2); and \<open>filterAndRenumberThreads\<close> on those
  blocks returns, in their original order and unchanged but for the identifier, exactly
  the threads whose non-empty quoted text occurs in the last three blocks, with the
  identifiers \<open>c1\<close>, \<open>c2\<close>, ... in that order.
\<close>

theorem six_paragraph_scenario:
  assumes "length els = 6"
    and "list_all (\<lambda>e. \<not> hasPageBreak e \<and> getElementCharCount e = 1000) els"
  shows "estimatePages els 3000 =
           [\<lparr>pageNumber = 1, startElementIndex = 0, endElementIndex = 3, charCount = 3000\<rparr>,
            \<lparr>pageNumber = 2, startElementIndex = 3, endElementIndex = 6, charCount = 3000\<rparr>]
         \<and> filterByPageRange els 2 (Some 1) 3000 =
             \<lparr>frElements = drop 3 els, totalPages = 2, startPage = 2, endPage = 2\<rparr>
         \<and> map withoutAnchorId (filterAndRenumberThreads threads
                                   (frElements (filterByPageRange els 2 (Some 1) 3000)))
             = map withoutAnchorId (filter (survivesIn (drop 3 els)) threads)
         \<and> map anchorId (filterAndRenumberThreads threads
                            (frElements (filterByPageRange els 2 (Some 1) 3000)))
             = anchorIds (length (filter (survivesIn (drop 3 els)) threads))"
proof -
  have kept: "frElements (filterByPageRange els 2 (Some 1) 3000) = drop 3 els"
    by (simp add: filterByPageRange_six[OF assms])
  show ?thesis
    unfolding kept
    using estimatePages_six[OF assms] filterByPageRange_six[OF assms]
      filterAndRenumberThreads_survivors[of threads "drop 3 els"]
    by blast
qed

text \<open>
  The statement at six test paragraphs and three threads: the thread on the first
  paragraph is dropped, and the threads \<open>c2\<close> and \<open>c3\<close> on the fourth and fifth
  become \<open>c1\<close> and \<open>c2\<close>.
\<close>

lemma sixParagraphs_text:
  "extractAllText (drop 3 sixParagraphs) =
     ''Para4'' @ replicate 995 CHR ''x'' @ ''Para5'' @ replicate 995 CHR ''x''
     @ ''Para6'' @ replicate 995 CHR ''x''"
  by (simp add: sixParagraphs_def extractAllText_def textBlock_def)

lemma sixThreads_survivors:
  "filter (survivesIn (drop 3 sixParagraphs)) sixThreads
     = [simpleThread ''2'' ''c2'' ''Para4'', simpleThread ''3'' ''c3'' ''Para5'']"
proof -
  let ?text = "extractAllText (drop 3 sixParagraphs)"
  have no1: "\<not> includesStr ?text ''Para1''"
  proof
    assume "includesStr ?text ''Para1''"
    then obtain pre post where "?text = pre @ ''Para1'' @ post"
      unfolding includesStr_iff by blast
    then have "CHR ''1'' \<in> set ?text" by simp
    then show False unfolding sixParagraphs_text by simp
  qed
  have "?text = [] @ ''Para4'' @ (replicate 995 CHR ''x'' @ ''Para5'' @ replicate 995 CHR ''x''
                   @ ''Para6'' @ replicate 995 CHR ''x'')"
    unfolding sixParagraphs_text by simp
  then have yes4: "includesStr ?text ''Para4''" unfolding includesStr_iff by blast
  have "?text = (''Para4'' @ replicate 995 CHR ''x'') @ ''Para5''
                  @ (replicate 995 CHR ''x'' @ ''Para6'' @ replicate 995 CHR ''x'')"
    unfolding sixParagraphs_text by simp
  then have yes5: "includesStr ?text ''Para5''" unfolding includesStr_iff by blast
  show ?thesis
    using no1 yes4 yes5 by (simp add: sixThreads_def survivesIn_def simpleThread_def)
qed

theorem six_paragraph_scenario_witness:
  "length (estimatePages sixParagraphs 3000) = 2
   \<and> frElements (filterByPageRange sixParagraphs 2 (Some 1) 3000) = drop 3 sixParagraphs
   \<and> map threadId (filterAndRenumberThreads sixThreads
                     (frElements (filterByPageRange sixParagraphs 2 (Some 1) 3000)))
       = [''2'', ''3'']
   \<and> map anchorId (filterAndRenumberThreads sixThreads
                     (frElements (filterByPageRange sixParagraphs 2 (Some 1) 3000)))
       = [''c1'', ''c2'']"
proof -
  let ?result = "filterAndRenumberThreads sixThreads
                   (frElements (filterByPageRange sixParagraphs 2 (Some 1) 3000))"
  note scenario = six_paragraph_scenario[OF sixParagraphs_ok, of sixThreads]
  from scenario have pages: "length (estimatePages sixParagraphs 3000) = 2" by simp
  from scenario have kept:
    "frElements (filterByPageRange sixParagraphs 2 (Some 1) 3000) = drop 3 sixParagraphs"
    by simp
  from scenario have "map withoutAnchorId ?result
      = map withoutAnchorId (filter (survivesIn (drop 3 sixParagraphs)) sixThreads)"
    by blast
  then have "map threadId (map withoutAnchorId ?result)
      = map threadId (map withoutAnchorId
          [simpleThread ''2'' ''c2'' ''Para4'', simpleThread ''3'' ''c3'' ''Para5''])"
    unfolding sixThreads_survivors by (rule arg_cong)
  then have ids: "map threadId ?result = [''2'', ''3'']"
    by (simp add: withoutAnchorId_def simpleThread_def comp_def)
  have two: "anchorIds (Suc (Suc 0)) = [''c1'', ''c2'']" by code_simp
  from scenario have "map anchorId ?result
      = anchorIds (length (filter (survivesIn (drop 3 sixParagraphs)) sixThreads))"
    by blast
  then have anchors: "map anchorId ?result = [''c1'', ''c2'']"
    unfolding sixThreads_survivors by (simp add: two)
  from pages kept ids anchors show ?thesis by blast
qed

section \<open>Page filter: clamping\<close>

lemma last_page_selected:
  assumes "pages \<noteq> []" and "map pageNumber pages = [1 ..< Suc (length pages)]"
  shows "filter (\<lambda>p. int (pageNumber p) \<ge> int (length pages)
                       \<and> int (pageNumber p) \<le> int (length pages)) pages = [last pages]"
proof -
  from assms(1) obtain ps p where pages: "pages = ps @ [p]" by (metis rev_exhaust)
  with assms(2) have nums: "map pageNumber ps = [1 ..< Suc (length ps)]"
    and last: "pageNumber p = Suc (length ps)"
    by simp_all
  have small: "\<And>q. q \<in> set ps \<Longrightarrow> pageNumber q \<le> length ps"
  proof -
    fix q assume "q \<in> set ps"
    then have "pageNumber q \<in> set (map pageNumber ps)" by simp
    then show "pageNumber q \<le> length ps" unfolding nums by auto
  qed
  have "filter (\<lambda>p. int (pageNumber p) \<ge> int (Suc (length ps))
                       \<and> int (pageNumber p) \<le> int (Suc (length ps))) ps = []"
    unfolding filter_empty_conv
  proof (intro ballI)
    fix q assume "q \<in> set ps"
    from small[OF this]
    show "\<not> (int (pageNumber q) \<ge> int (Suc (length ps))
               \<and> int (pageNumber q) \<le> int (Suc (length ps)))"
      by simp
  qed
  then show ?thesis using last by (simp add: pages)
qed

lemma filterByPageRange_fields:
  "totalPages (filterByPageRange els sp pc cpp) = int (length (estimatePages els cpp))"
  "startPage (filterByPageRange els sp pc cpp)
     = min (max 1 sp) (int (length (estimatePages els cpp)))"
  "endPage (filterByPageRange els sp pc cpp)
     = (case pc of
          None \<Rightarrow> int (length (estimatePages els cpp))
        | Some c \<Rightarrow> min (jsSub (jsAdd (min (max 1 sp) (int (length (estimatePages els cpp)))) c) 1)
                      (int (length (estimatePages els cpp))))"
  "frElements (filterByPageRange els sp pc cpp)
     = concat (map (pageElements els)
         (filter (\<lambda>p. int (pageNumber p) \<ge> startPage (filterByPageRange els sp pc cpp)
                       \<and> int (pageNumber p) \<le> endPage (filterByPageRange els sp pc cpp))
            (estimatePages els cpp)))"
  by (simp_all add: filterByPageRange_def Let_def)

lemma estimatePages_in_range:
  "list_all (\<lambda>p. endElementIndex p \<le> length els) (estimatePages els cpp)"
proof -
  have "list_all (\<lambda>p. startElementIndex p \<le> endElementIndex p \<and> endElementIndex p \<le> length els)
          (estimatePages els cpp)"
    using estimatePages_ok[of els cpp] by (simp add: pagesOk_def)
  then show ?thesis by (simp add: list_all_iff)
qed

text \<open>
  Claim C7, as the code has it. \<open>filterByPageRange\<close> is total and reads only block
  indices inside the input. It reports the page count \<open>n\<close> of the estimator, which
  is at least 1; the start page is \<open>min (max 1 startPage) n\<close>, so it lies between 1
  and \<open>n\<close>, and it is \<open>n\<close> for a start page beyond the last page; the end page is
  \<open>n\<close> without a page count and otherwise the smaller of \<open>n\<close> and the source's
  \<open>start + pageCount - 1\<close>, which is the exact integer whenever the page count lies
  between \<open>- 2 ^ 53\<close> and \<open>2 ^ 53 - n\<close> and is rounded beyond; so the end page never
  passes the last page. When the start page is at or beyond the last page and the page
  count is absent or at least 1 (with fewer than \<open>2 ^ 53\<close> pages), the result is the
  single last page.
\<close>

theorem filterByPageRange_clamps:
  assumes "r = filterByPageRange els sp pc cpp" and "n = int (length (estimatePages els cpp))"
  shows "totalPages r = n \<and> 1 \<le> n
         \<and> startPage r = min (max 1 sp) n \<and> 1 \<le> startPage r \<and> startPage r \<le> n
         \<and> (n < sp \<longrightarrow> startPage r = n)
         \<and> endPage r = (case pc of None \<Rightarrow> n
                         | Some c \<Rightarrow> min (jsSub (jsAdd (startPage r) c) 1) n)
         \<and> (case pc of None \<Rightarrow> True
             | Some c \<Rightarrow> (- (2 ^ 53) \<le> c \<and> c + n \<le> 2 ^ 53
                          \<longrightarrow> endPage r = min (startPage r + c - 1) n))
         \<and> endPage r \<le> n
         \<and> (n \<le> sp \<and> (case pc of None \<Rightarrow> True | Some c \<Rightarrow> 1 \<le> c \<and> n < 2 ^ 53)
              \<longrightarrow> startPage r = n \<and> endPage r = n
                  \<and> frElements r = pageElements els (last (estimatePages els cpp)))
         \<and> list_all (\<lambda>p. endElementIndex p \<le> length els) (estimatePages els cpp)"
proof -
  have ok: "estimatePages els cpp \<noteq> []"
    "map pageNumber (estimatePages els cpp) = [1 ..< Suc (length (estimatePages els cpp))]"
    using estimatePages_ok[of els cpp] by (simp_all add: pagesOk_def)
  then have n1: "1 \<le> n" using assms(2) by (cases "estimatePages els cpp") simp_all
  have tp: "totalPages r = n" and sp: "startPage r = min (max 1 sp) n"
    and ep: "endPage r = (case pc of None \<Rightarrow> n
                          | Some c \<Rightarrow> min (jsSub (jsAdd (startPage r) c) 1) n)"
    using assms by (simp_all add: filterByPageRange_fields split: option.splits)
  have s1: "1 \<le> startPage r" and sn: "startPage r \<le> n" using sp n1 by simp_all
  have epn: "endPage r \<le> n" using ep by (simp split: option.splits)
  have exact: "case pc of None \<Rightarrow> True
               | Some c \<Rightarrow> (- (2 ^ 53) \<le> c \<and> c + n \<le> 2 ^ 53
                            \<longrightarrow> endPage r = min (startPage r + c - 1) n)"
  proof (cases pc)
    case None
    then show ?thesis by simp
  next
    case (Some c)
    have "endPage r = min (startPage r + c - 1) n"
      if "- (2 ^ 53) \<le> c" and "c + n \<le> 2 ^ 53"
      using ep Some jsSub_jsAdd_exact[OF s1 sn that] by simp
    with Some show ?thesis by simp
  qed
  have single: "startPage r = n \<and> endPage r = n
                \<and> frElements r = pageElements els (last (estimatePages els cpp))"
    if "n \<le> sp" and "case pc of None \<Rightarrow> True | Some c \<Rightarrow> 1 \<le> c \<and> n < 2 ^ 53"
  proof -
    have s: "startPage r = n" using sp that(1) n1 by simp
    have e: "endPage r = n"
    proof (cases pc)
      case None
      with ep show ?thesis by simp
    next
      case (Some c)
      with that(2) have "1 \<le> c" and "n < 2 ^ 53" by simp_all
      from jsSub_jsAdd_ge[OF n1 this(2) this(1)] ep Some s show ?thesis by simp
    qed
    have "frElements r = concat (map (pageElements els)
             (filter (\<lambda>p. int (pageNumber p) \<ge> n \<and> int (pageNumber p) \<le> n)
                (estimatePages els cpp)))"
      using s e assms(1) filterByPageRange_fields(4)[of els sp pc cpp] by simp
    then show ?thesis using s e last_page_selected[OF ok] assms(2) by simp
  qed
  have beyond: "n < sp \<longrightarrow> startPage r = n" using sp n1 by simp
  have last: "n \<le> sp \<and> (case pc of None \<Rightarrow> True | Some c \<Rightarrow> 1 \<le> c \<and> n < 2 ^ 53)
              \<longrightarrow> startPage r = n \<and> endPage r = n
                  \<and> frElements r = pageElements els (last (estimatePages els cpp))"
    using single by blast
  from tp n1 sp s1 sn beyond ep exact epn last estimatePages_in_range[of els cpp]
  show ?thesis by (intro conjI)
qed

text \<open>The statement at the six test paragraphs, start page 99 and page count 1.\<close>

theorem filterByPageRange_clamps_witness:
  "startPage (filterByPageRange sixParagraphs 99 (Some 1) 3000) = 2
   \<and> endPage (filterByPageRange sixParagraphs 99 (Some 1) 3000) = 2
   \<and> totalPages (filterByPageRange sixParagraphs 99 (Some 1) 3000) = 2
   \<and> frElements (filterByPageRange sixParagraphs 99 (Some 1) 3000)
       = pageElements sixParagraphs
           \<lparr>pageNumber = 2, startElementIndex = 3, endElementIndex = 6, charCount = 3000\<rparr>"
  using filterByPageRange_clamps[OF refl refl, of sixParagraphs 99 "Some 1" 3000]
  by (simp add: estimatePages_six[OF sixParagraphs_ok] jsSub_jsAdd_2_1)

text \<open>
  The claim as worded gives a single-page result for every start page beyond the last
  page, whatever the page count, and the exact \<open>min (start + pageCount - 1) n\<close> for
  every page count. With page count 0 the end page is one below the start page and no
  block is returned. With page count \<open>- 9007199254740994\<close> the source's sum is rounded,
  and the end page is \<open>- 9007199254740992\<close>, not the exact \<open>- 9007199254740994\<close>.
\<close>

theorem filterByPageRange_zero_count:
  "filterByPageRange [textBlock ''Hello world.''] 99 (Some 0) DEFAULT_CHARS_PER_PAGE =
     \<lparr>frElements = [], totalPages = 1, startPage = 1, endPage = 0\<rparr>
   \<and> filterByPageRange [textBlock ''Hello world.''] 1 (Some (- 9007199254740994))
       DEFAULT_CHARS_PER_PAGE =
     \<lparr>frElements = [], totalPages = 1, startPage = 1, endPage = - 9007199254740992\<rparr>
   \<and> min (1 + (- 9007199254740994) - 1) (1::int) = - 9007199254740994"
  by code_simp

section \<open>Drive comments to threads\<close>

text \<open>
  Claim C10. \<open>convertDriveComments\<close> drops exactly the comments that are both resolved
  and without quoted content; the threads are the other comments in the order of the
  response, with anchor identifiers \<open>c1\<close>, ..., \<open>cN\<close> in that order, the resolved flag
  of the comment, and its quoted text, which is empty for a comment without quoted
  content.
\<close>

theorem convertDriveComments_threads:
  "map threadId (convertDriveComments cs) = map driveId (filter (\<lambda>c. \<not> droppedComment c) cs)
   \<and> map anchorId (convertDriveComments cs)
       = anchorIds (length (filter (\<lambda>c. \<not> droppedComment c) cs))
   \<and> map quotedText (convertDriveComments cs)
       = map commentQuote (filter (\<lambda>c. \<not> droppedComment c) cs)
   \<and> map resolved (convertDriveComments cs)
       = map driveResolved (filter (\<lambda>c. \<not> droppedComment c) cs)"
proof -
  have keep: "(\<lambda>comment. \<not> driveResolved comment \<or> quotedFileContent comment \<noteq> None)
                = (\<lambda>c. \<not> droppedComment c)"
    by (simp add: droppedComment_def fun_eq_iff)
  have quote: "\<And>c. orEmpty (map_option quotedValue (quotedFileContent c)) = commentQuote c"
    by (simp add: orEmpty_def commentQuote_def split: option.splits)
  show ?thesis
    unfolding convertDriveComments_def Let_def keep
    by (intro conjI nth_equalityI) (simp_all add: anchorIds_def quote)
qed

text \<open>The statement at four comments, of which the first is resolved and quotes nothing.\<close>

theorem convertDriveComments_threads_witness:
  "map threadId (convertDriveComments driveComments) = [''B'', ''C'', ''D'']
   \<and> map anchorId (convertDriveComments driveComments) = [''c1'', ''c2'', ''c3'']
   \<and> map quotedText (convertDriveComments driveComments) = ['''', ''text3'', ''text4'']"
proof -
  have kept: "filter (\<lambda>c. \<not> droppedComment c) driveComments
                = [driveComment ''B'' False None, driveComment ''C'' True (Some ''text3''),
                   driveComment ''D'' False (Some ''text4'')]"
    by (simp add: driveComments_def droppedComment_def driveComment_def)
  have ids: "anchorIds (Suc (Suc (Suc 0))) = [''c1'', ''c2'', ''c3'']" by code_simp
  from convertDriveComments_threads[of driveComments] show ?thesis
    unfolding kept by (simp add: ids driveComment_def commentQuote_def)
qed

section \<open>Text renderer\<close>

lemma applyTextStyle_spec:
  "applyTextStyle t style = specRenderSpan t (bold style) (italic style) (spanTarget style)"
  by (simp add: applyTextStyle_def specRenderSpan_def spanTarget_def linkUrl_def truthyStr_def
        orEmpty_def specWrapBold_def specWrapItalic_def Let_def split: option.splits)

lemma extractTextContent_spec: "extractTextContent els = concat (map specRenderElement els)"
proof -
  have "(\<lambda>element. case textRun element of
                      None \<Rightarrow> []
                    | Some r \<Rightarrow>
                        (case textStyle r of
                           None \<Rightarrow> content r
                         | Some style \<Rightarrow> applyTextStyle (content r) style))
          = specRenderElement"
    by (simp add: fun_eq_iff specRenderElement_def applyTextStyle_spec specRenderSpan_def
          specWrapBold_def specWrapItalic_def split: option.splits)
  then show ?thesis by (simp add: extractTextContent_def)
qed

lemma extractTextContent_plain:
  "extractTextContent (map (\<lambda>t. styledSpan t False False None) ts) = concat ts"
  by (induction ts)
    (simp_all add: extractTextContent_def styledSpan_def applyTextStyle_def linkUrl_def
       truthyStr_def)

text \<open>
  Claim C8. \<open>extractTextContent\<close> is the concatenation, span by span, of the rendering
  that section 4.4 of the spec describes: a span with a (non-empty) link URL is a markdown
  link whatever its bold and italic flags; otherwise italic is wrapped first and bold
  second, so a bold and italic span is \<open>**_text_**\<close>; the literal text, line feeds
  included, is copied as it is.
\<close>

theorem extractTextContent_renders_spans:
  "extractTextContent els = concat (map specRenderElement els)
   \<and> extractTextContent [styledSpan t True True None] = ''**_'' @ t @ ''_**''
   \<and> (u \<noteq> [] \<longrightarrow> extractTextContent [styledSpan t b i (Some u)] = ''['' @ t @ '']('' @ u @ '')'')
   \<and> extractTextContent (map (\<lambda>t. styledSpan t False False None) ts) = concat ts"
  using extractTextContent_spec[of els] extractTextContent_plain[of ts]
  by (simp add: extractTextContent_def styledSpan_def applyTextStyle_def linkUrl_def
        truthyStr_def orEmpty_def)

text \<open>The statement at the spans of the tests.\<close>

theorem extractTextContent_renders_spans_witness:
  "extractTextContent [styledSpan ''Hello'' True True None] = ''**_Hello_**''
   \<and> extractTextContent [styledSpan ''Click'' True True (Some ''https://example.com'')]
       = ''[Click](https://example.com)''
   \<and> extractTextContent [styledSpan (''Line1'' @ [nl]) False False None,
                           styledSpan ''Line2'' False False None]
       = ''Line1'' @ [nl] @ ''Line2''"
  using extractTextContent_renders_spans[where els = "[]" and t = "''Hello''"
          and u = "''https://example.com''" and b = True and i = True
          and ts = "[''Line1'' @ [nl], ''Line2'']"]
    extractTextContent_renders_spans[where els = "[]" and t = "''Click''"
          and u = "''https://example.com''" and b = True and i = True and ts = "[]"]
  by simp

section \<open>Transformer on the test documents\<close>

text \<open>
  Claim C1 at the input of the test on a quoted text that recurs in a later paragraph:
  \<open>transformToMarkdown\<close> looks for the threads of every block anew, so the thread is
  anchored in both paragraphs and its blockquote is written twice, where the claim and the
  test expect one anchor, on the first paragraph, and one blockquote.
\<close>

theorem transformToMarkdown_anchors_each_block:
  "transformToMarkdown surrenderDoc surrenderThreads =
     ''# Test Doc'' @ [nl, nl]
     @ ''First paragraph mentions [surrender]^[c1] here.'' @ [nl, nl]
     @ ''> [c1] **Alice** (a@t.com):'' @ [nl] @ ''> Why?'' @ [nl, nl]
     @ ''Second paragraph also says [surrender]^[c1] again.'' @ [nl, nl]
     @ ''> [c1] **Alice** (a@t.com):'' @ [nl] @ ''> Why?'' @ [nl]
   \<and> occurrences '']^[c1]'' (transformToMarkdown surrenderDoc surrenderThreads) = 2
   \<and> occurrences ''> [c1] **Alice**'' (transformToMarkdown surrenderDoc surrenderThreads) = 2"
  by code_simp

text \<open>
  Claim C2 at the input of the test on numbering by document position:
  \<open>transformToMarkdown\<close> writes each thread's identifier as it was given, so the quote
  that comes first in the document carries \<open>c2\<close> and the later one \<open>c1\<close>, where the
  claim and the test expect the opposite; \<open>filterAndRenumberThreads\<close> numbers in input
  order too.
\<close>

theorem transformToMarkdown_keeps_given_ids:
  "transformToMarkdown wordDoc wordThreads =
     ''# Test Doc'' @ [nl, nl]
     @ ''First paragraph with [wordA]^[c2] in it.'' @ [nl, nl]
     @ ''> [c2] **Alice** (a@t.com):'' @ [nl] @ ''> Why?'' @ [nl, nl]
     @ ''Second paragraph with [wordB]^[c1] in it.'' @ [nl, nl]
     @ ''> [c1] **Alice** (a@t.com):'' @ [nl] @ ''> Why?'' @ [nl]
   \<and> map (\<lambda>t. (quotedText t, anchorId t)) (filterAndRenumberThreads wordThreads (bodyContent wordDoc))
       = [(''wordB'', ''c1''), (''wordA'', ''c2'')]"
  by code_simp

section \<open>Page-filtered transform and the unfiltered transform\<close>

lemma all_pages_selected:
  assumes "map pageNumber pages = [1 ..< Suc (length pages)]"
  shows "filter (\<lambda>p. int (pageNumber p) \<ge> 1 \<and> int (pageNumber p) \<le> int (length pages)) pages
           = pages"
proof -
  have "\<And>q. q \<in> set pages \<Longrightarrow> 1 \<le> pageNumber q \<and> pageNumber q \<le> length pages"
  proof -
    fix q assume "q \<in> set pages"
    then have "pageNumber q \<in> set (map pageNumber pages)" by simp
    then show "1 \<le> pageNumber q \<and> pageNumber q \<le> length pages" unfolding assms by auto
  qed
  then show ?thesis by (auto simp: filter_id_conv)
qed

lemma pageElements_concat:
  "concat (map (pageElements els) pages) = map (\<lambda>k. els ! k) (concat (map pageIndices pages))"
  by (induction pages) (simp_all add: pageElements_def pageIndices_def)

lemma filterByPageRange_all:
  "frElements (filterByPageRange els 1 None cpp)
     = map (\<lambda>k. els ! k) (textBlockIndices els (length els))"
proof -
  have ok: "estimatePages els cpp \<noteq> []"
    "map pageNumber (estimatePages els cpp) = [1 ..< Suc (length (estimatePages els cpp))]"
    "concat (map pageIndices (estimatePages els cpp)) = textBlockIndices els (length els)"
    using estimatePages_ok[of els cpp] by (simp_all add: pagesOk_def)
  then have n1: "1 \<le> int (length (estimatePages els cpp))"
    by (cases "estimatePages els cpp") simp_all
  have s: "startPage (filterByPageRange els 1 None cpp) = 1"
    using n1 by (simp add: filterByPageRange_fields(2))
  have e: "endPage (filterByPageRange els 1 None cpp) = int (length (estimatePages els cpp))"
    by (simp add: filterByPageRange_fields(3))
  show ?thesis
    unfolding filterByPageRange_fields(4)[of els 1 None cpp] s e
      all_pages_selected[OF ok(2)] pageElements_concat ok(3) ..
qed

lemma textBlockIndices_no_break:
  assumes "list_all (\<lambda>e. \<not> hasPageBreak e) els"
  shows "textBlockIndices els (length els) = [0 ..< length els]"
  using assms by (auto simp: textBlockIndices_def list_all_length filter_id_conv)

lemma filterByPageRange_keeps_all:
  assumes "list_all (\<lambda>e. \<not> hasPageBreak e) els"
  shows "frElements (filterByPageRange els 1 None cpp) = els"
  by (simp add: filterByPageRange_all textBlockIndices_no_break[OF assms] map_nth)

text \<open>
  Claim C4, as the code has it. For a document none of whose blocks carries a hard page
  break, and threads that the Thread Filter/Renumberer leaves as they are (identifiers
  \<open>c1\<close>, ..., \<open>cN\<close> in list order, every quoted text non-empty and found in the
  concatenated text of the blocks), the page-filtered transform with start page 1 and no
  page count, at any budget, returns the markdown of \<open>transformToMarkdown\<close> on the same
  document and threads.
\<close>

theorem transformWithPageFilter_first_page_onwards:
  assumes "list_all (\<lambda>e. \<not> hasPageBreak e) (bodyContent doc)"
    and "map anchorId threads = anchorIds (length threads)"
    and "list_all (\<lambda>t. quotedText t \<noteq> []
                       \<and> includesStr (extractAllText (bodyContent doc)) (quotedText t)) threads"
  shows "markdown (transformWithPageFilter doc threads
                     (Some \<lparr>optStartPage = Some 1, optPageCount = None, optCharsPerPage = cpp\<rparr>))
           = transformToMarkdown doc threads"
  by (simp add: transformWithPageFilter_def Let_def filterByPageRange_keeps_all[OF assms(1)]
        filterAndRenumberThreads_same[OF assms(2) assms(3)])

text \<open>The statement at a one-paragraph document with two threads found in it.\<close>

theorem transformWithPageFilter_first_page_onwards_witness:
  "markdown (transformWithPageFilter helloDoc helloWorldThreads (Some fromFirstPage))
     = transformToMarkdown helloDoc helloWorldThreads"
proof -
  have blocks: "list_all (\<lambda>e. \<not> hasPageBreak e) (bodyContent helloDoc)" by code_simp
  have ids: "map anchorId helloWorldThreads = anchorIds (length helloWorldThreads)" by code_simp
  have found: "list_all (\<lambda>t. quotedText t \<noteq> []
                  \<and> includesStr (extractAllText (bodyContent helloDoc)) (quotedText t))
                 helloWorldThreads"
    by code_simp
  show ?thesis
    unfolding fromFirstPage_def
    by (rule transformWithPageFilter_first_page_onwards[OF blocks ids found])
qed

text \<open>
  The claim as worded covers every single-page document and every thread list. A block
  with a hard page break belongs to no page, so the filter drops its text while the
  unfiltered transform renders it; and the renumberer drops a thread whose quote is not
  found and renumbers the rest, while the unfiltered transform writes the identifiers it
  was given. Both documents below are a single page at the default budget.
\<close>

theorem transformWithPageFilter_differs:
  "length (estimatePages (bodyContent breakTextDoc) DEFAULT_CHARS_PER_PAGE) = 1
   \<and> transformToMarkdown breakTextDoc [] =
       ''# Test Doc'' @ [nl, nl] @ ''Intro'' @ [nl, nl] @ ''Chapter one'' @ [nl]
   \<and> markdown (transformWithPageFilter breakTextDoc [] (Some fromFirstPage)) =
       ''# Test Doc'' @ [nl, nl] @ ''Intro'' @ [nl]
   \<and> markdown (transformWithPageFilter breakTextDoc [] (Some fromFirstPage))
       \<noteq> transformToMarkdown breakTextDoc []
   \<and> length (estimatePages (bodyContent helloDoc) DEFAULT_CHARS_PER_PAGE) = 1
   \<and> transformToMarkdown helloDoc helloThreads =
       ''# Test Doc'' @ [nl, nl] @ ''[Hello]^[c2] world'' @ [nl, nl]
       @ ''> [c2] **Alice** (a@t.com):'' @ [nl] @ ''> Why?'' @ [nl]
   \<and> markdown (transformWithPageFilter helloDoc helloThreads (Some fromFirstPage)) =
       ''# Test Doc'' @ [nl, nl] @ ''[Hello]^[c1] world'' @ [nl, nl]
       @ ''> [c1] **Alice** (a@t.com):'' @ [nl] @ ''> Why?'' @ [nl]
   \<and> markdown (transformWithPageFilter helloDoc helloThreads (Some fromFirstPage))
       \<noteq> transformToMarkdown helloDoc helloThreads"
  by code_simp

end
